theory Spec2Isabelle
  imports Main "HOL-Library.Sublist"
begin

section \<open>Rocket.Chat import: values, errors and the shared stores\<close>

text \<open>
  The development follows \<^verbatim>\<open>zerver/data_import/rocketchat.py\<close> and its older
  sibling \<^verbatim>\<open>zerver/data_import/rocketchat1.py\<close>. Python's unbounded integers are
  \<^typ>\<open>int\<close>, Python strings are \<^typ>\<open>string\<close> (one \<^typ>\<open>char\<close> per unit of
  \<^verbatim>\<open>len\<close>), dictionaries are maps, and every exception the code can raise is a value
  of \<open>py_error\<close> returned on the left of a sum.
\<close>

datatype py_error = KeyError | IndexError

subsection \<open>IdMapper\<close>

text \<open>
  Modelled from the spec: \<^verbatim>\<open>IdMapper\<close> of \<^verbatim>\<open>zerver/data_import/sequencer.py\<close>,
  which is imported by the importer and is not among the sources at hand. Section 4.1:
  \<^verbatim>\<open>get(source_key)\<close> returns the previously assigned integer of a key seen
  before; otherwise it assigns the next integer, starting at a configurable floor
  (default 0), records the mapping and returns it. There is no removal.
\<close>

record id_mapper =
  id_map :: "string \<rightharpoonup> int"
  id_cnt :: int

definition IdMapper_from :: "int \<Rightarrow> id_mapper" where
  "IdMapper_from floor = \<lparr>id_map = Map.empty, id_cnt = floor\<rparr>"

definition IdMapper :: id_mapper where
  "IdMapper = IdMapper_from 0"

definition mapper_get :: "id_mapper \<Rightarrow> string \<Rightarrow> int \<times> id_mapper" where
  "mapper_get m their_id =
     (case id_map m their_id of
        Some our_id \<Rightarrow> (our_id, m)
      | None \<Rightarrow>
          (id_cnt m, m\<lparr>id_map := (id_map m)(their_id \<mapsto> id_cnt m), id_cnt := id_cnt m + 1\<rparr>))"

text \<open>A run of \<^verbatim>\<open>get\<close> calls on one mapper, in order, with the integers returned.\<close>

fun mapper_gets :: "id_mapper \<Rightarrow> string list \<Rightarrow> int list \<times> id_mapper" where
  "mapper_gets m [] = ([], m)"
| "mapper_gets m (k # ks) =
     (let (v, m1) = mapper_get m k;
          (vs, m2) = mapper_gets m1 ks
      in (v # vs, m2))"

subsection \<open>Sequencer\<close>

text \<open>
  Modelled from the spec: \<^verbatim>\<open>NEXT_ID\<close> of \<^verbatim>\<open>zerver/data_import/sequencer.py\<close>
  (not among the sources at hand). Section 4.2: a run-scoped table of named counters;
  \<^verbatim>\<open>next(name)\<close> returns the counter's current value and then increments it, and a
  name not seen before starts at 0.
\<close>

type_synonym sequencer = "string \<rightharpoonup> int"

definition seq_value :: "sequencer \<Rightarrow> string \<Rightarrow> int" where
  "seq_value sq name = (case sq name of None \<Rightarrow> 0 | Some v \<Rightarrow> v)"

definition NEXT_ID :: "sequencer \<Rightarrow> string \<Rightarrow> int \<times> sequencer" where
  "NEXT_ID sq name = (seq_value sq name, sq(name \<mapsto> seq_value sq name + 1))"

subsection \<open>Python string operations\<close>

text \<open>
  \<^verbatim>\<open>str.replace(old, new)\<close>: scanning from the left, every occurrence of \<open>old\<close>
  that does not overlap an earlier one is replaced. With an empty \<open>old\<close>, Python puts
  \<open>new\<close> before every unit and at the end.
\<close>

function py_replace :: "string \<Rightarrow> string \<Rightarrow> string \<Rightarrow> string" where
  "py_replace old new [] = (if old = [] then new else [])"
| "py_replace old new (c # cs) =
     (if old = [] then new @ c # py_replace old new cs
      else if prefix old (c # cs) then new @ py_replace old new (drop (length old) (c # cs))
      else c # py_replace old new cs)"
  by pat_completeness auto
termination
  by (relation "measure (\<lambda>(old, new, s). length s)") auto

text \<open>\<^verbatim>\<open>str.split(sep)\<close> for a separator of one unit.\<close>

fun py_split :: "char \<Rightarrow> string \<Rightarrow> string list" where
  "py_split sep [] = [[]]"
| "py_split sep (c # cs) =
     (if c = sep then [] # py_split sep cs
      else (case py_split sep cs of
              [] \<Rightarrow> [[c]]
            | w # ws \<Rightarrow> (c # w) # ws))"

text \<open>\<^verbatim>\<open>str(n)\<close> for an integer: decimal digits, with a sign for a negative one.\<close>

function str_nat :: "nat \<Rightarrow> string" where
  "str_nat n =
     (if n < 10 then [char_of (48 + n)]
      else str_nat (n div 10) @ [char_of (48 + n mod 10)])"
  by pat_completeness auto
termination
  by (relation "measure id") auto

definition str_int :: "int \<Rightarrow> string" where
  "str_int i = (if i < 0 then CHR ''-'' # str_nat (nat (- i)) else str_nat (nat i))"

definition pad_zero :: "nat \<Rightarrow> string \<Rightarrow> string" where
  "pad_zero w s = replicate (w - length s) (CHR ''0'') @ s"

text \<open>The format \<^verbatim>\<open>{n:06}\<close>: at least six units, zeros after the sign.\<close>

definition format_06 :: "int \<Rightarrow> string" where
  "format_06 i =
     (if i < 0 then CHR ''-'' # pad_zero 5 (str_nat (nat (- i))) else pad_zero 6 (str_nat (nat i)))"

text \<open>The truth value Python gives an optional string: absent and empty are both false.\<close>

definition truthy :: "string option \<Rightarrow> bool" where
  "truthy v = (case v of None \<Rightarrow> False | Some s \<Rightarrow> s \<noteq> [])"

text \<open>\<^verbatim>\<open>d[k]\<close> raises \<^verbatim>\<open>KeyError\<close> on a missing key, \<^verbatim>\<open>xs[i]\<close> raises
  \<^verbatim>\<open>IndexError\<close> out of range.\<close>

definition lookup :: "('k \<rightharpoonup> 'v) \<Rightarrow> 'k \<Rightarrow> py_error + 'v" where
  "lookup d k = (case d k of None \<Rightarrow> Inl KeyError | Some v \<Rightarrow> Inr v)"

definition field :: "'v option \<Rightarrow> py_error + 'v" where
  "field v = (case v of None \<Rightarrow> Inl KeyError | Some x \<Rightarrow> Inr x)"

definition index :: "'a list \<Rightarrow> nat \<Rightarrow> py_error + 'a" where
  "index xs i = (if i < length xs then Inr (xs ! i) else Inl IndexError)"

subsection \<open>Source records\<close>

text \<open>
  The export's records are dictionaries. A key the code reads with \<^verbatim>\<open>d[k]\<close> on every
  path is a plain field; a key it reads with \<^verbatim>\<open>d.get(k)\<close>, or only on some paths, is
  optional, and reading it when absent is a \<^verbatim>\<open>KeyError\<close>.
\<close>

record rc_channel =
  ch_id :: string
  ch_t :: string
  ch_prid :: "string option"
  ch_fname :: "string option"
  ch_teamMain :: "bool option"
  ch_teamId :: "string option"
  ch_uids :: "string list option"

text \<open>
  A message: \<open>m_u_id\<close> is \<^verbatim>\<open>message["u"]["_id"]\<close>, \<open>m_ts\<close> is the time stamp
  already as whole seconds (\<^verbatim>\<open>int(message["ts"].timestamp())\<close>), \<open>m_reactions\<close> maps
  a reaction code to its \<^verbatim>\<open>usernames\<close> in the dictionary's order, and \<open>m_mentions\<close>
  holds the \<^verbatim>\<open>_id\<close> of each mention.
\<close>

record rc_message =
  m_rid :: "string option"
  m_u_id :: string
  m_msg :: string
  m_ts :: int
  m_t :: "string option"
  m_reactions :: "(string \<times> string list) list option"
  m_mentions :: "string list option"

subsection \<open>Converted records\<close>

record reaction_entry =
  re_name :: string
  re_user_id :: int

text \<open>
  The dictionary \<^verbatim>\<open>message_to_dict\<close> returns. \<open>mention_user_ids\<close> is a Python set of
  integers.
\<close>

record raw_message =
  sender_id :: int
  content :: string
  date_sent :: int
  reactions :: "reaction_entry list"
  recipient_id :: int
  topic_name :: string
  mention_user_ids :: "int set"

text \<open>
  Modelled from the spec: the user record kept by \<^verbatim>\<open>UserHandler\<close>
  (\<^verbatim>\<open>zerver/data_import/user_handler.py\<close>, not among the sources at hand), with the
  fields the importer reads, and \<^verbatim>\<open>get_user\<close>, which section 4.4 says fails on an
  unknown id.
\<close>

record user_profile =
  up_id :: int
  up_short_name :: string
  up_full_name :: string

type_synonym user_handler = "int \<rightharpoonup> user_profile"

definition get_user :: "user_handler \<Rightarrow> int \<Rightarrow> py_error + user_profile" where
  "get_user user_handler user_id = lookup user_handler user_id"

text \<open>
  Modelled from the spec: the target message built by \<^verbatim>\<open>build_message\<close> of
  \<^verbatim>\<open>zerver/data_import/import_util.py\<close> (not among the sources at hand): section 3
  gives a target message a dense id, sender id, recipient id, topic, body and time stamp.
\<close>

record zerver_message =
  zm_id :: int
  zm_content :: string
  zm_date_sent :: int
  zm_recipient :: int
  zm_rendered_content :: "string option"
  zm_topic_name :: string
  zm_sender :: int
  zm_has_attachment :: bool

definition build_message ::
  "string \<Rightarrow> int \<Rightarrow> int \<Rightarrow> int \<Rightarrow> string option \<Rightarrow> string \<Rightarrow> int \<Rightarrow> bool \<Rightarrow> zerver_message" where
  "build_message content' message_id date_sent' recipient_id' rendered_content topic_name'
       user_id has_attachment =
     \<lparr>zm_id = message_id, zm_content = content', zm_date_sent = date_sent',
      zm_recipient = recipient_id', zm_rendered_content = rendered_content,
      zm_topic_name = topic_name', zm_sender = user_id, zm_has_attachment = has_attachment\<rparr>"

record zerver_reaction =
  zr_id :: int
  zr_emoji_code :: string
  zr_emoji_name :: string
  zr_reaction_type :: string
  zr_message :: int
  zr_user_profile :: int

text \<open>
  Modelled from the spec: \<^verbatim>\<open>make_user_messages\<close> of
  \<^verbatim>\<open>zerver/data_import/import_util.py\<close> (not among the sources at hand). Section 4.8:
  from the subscriber state, the set of user ids that must receive a copy of each message.
\<close>

definition make_user_messages ::
  "zerver_message list \<Rightarrow> (int \<rightharpoonup> int set) \<Rightarrow> (int \<times> int set) list" where
  "make_user_messages zerver_message' subscriber_map =
     map (\<lambda>m. (zm_id m, case subscriber_map (zm_recipient m) of None \<Rightarrow> {} | Some us \<Rightarrow> us))
       zerver_message'"

record message_json =
  mj_zerver_message :: "zerver_message list"
  mj_zerver_usermessage :: "(int \<times> int set) list"

text \<open>
  What the conversion mutates besides the id mappers: the named counters, the reactions
  gathered for the realm bundle, the message files written so far (path and content, in
  the order of the \<^verbatim>\<open>create_converted_data_files\<close> calls) and the lengths logged for
  skipped messages.
\<close>

record conv_state =
  cs_seq :: sequencer
  cs_total_reactions :: "zerver_reaction list"
  cs_files :: "(string \<times> message_json) list"
  cs_log :: "nat list"

record mappers =
  user_id_mapper :: id_mapper
  stream_id_mapper :: id_mapper

section \<open>The importer: \<^verbatim>\<open>rocketchat.py\<close>\<close>

subsection \<open>\<^verbatim>\<open>build_reactions\<close>\<close>

text \<open>
  \<open>name_to_codepoint\<close> is the emoji table of \<^verbatim>\<open>zerver/lib/emoji\<close>, a parameter here.
  A reaction whose name is not in the table is skipped and takes no id.
\<close>

fun build_reactions ::
  "(string \<rightharpoonup> string) \<Rightarrow> reaction_entry list \<Rightarrow> int \<Rightarrow> sequencer \<times> zerver_reaction list
     \<Rightarrow> sequencer \<times> zerver_reaction list" where
  "build_reactions name_to_codepoint [] message_id (sq, total_reactions) = (sq, total_reactions)"
| "build_reactions name_to_codepoint (reaction # rest) message_id (sq, total_reactions) =
     (case name_to_codepoint (re_name reaction) of
        None \<Rightarrow> build_reactions name_to_codepoint rest message_id (sq, total_reactions)
      | Some emoji_code \<Rightarrow>
          (let (reaction_id, sq1) = NEXT_ID sq ''reaction''
           in build_reactions name_to_codepoint rest message_id
                (sq1, total_reactions @
                   [\<lparr>zr_id = reaction_id, zr_emoji_code = emoji_code,
                     zr_emoji_name = re_name reaction, zr_reaction_type = ''unicode_emoji'',
                     zr_message = message_id, zr_user_profile = re_user_id reaction\<rparr>])))"

subsection \<open>\<^verbatim>\<open>process_raw_message_batch\<close>\<close>

text \<open>
  The order in which \<^verbatim>\<open>for user_id in mention_user_ids\<close> visits a Python set is a
  matter of the interpreter's hash table, not of the language. It is a parameter of the
  model, \<open>set_iter\<close>, which lists the elements of a set; what is proved holds for every
  such order.
\<close>

type_synonym set_iter = "int set \<Rightarrow> int list"

text \<open>The loop of \<^verbatim>\<open>fix_mentions\<close> over the mentioned users, then the two broadcast tokens.\<close>

fun fix_mention_users :: "user_handler \<Rightarrow> string \<Rightarrow> int list \<Rightarrow> py_error + string" where
  "fix_mention_users user_handler content' [] = Inr content'"
| "fix_mention_users user_handler content' (user_id # rest) =
     (case get_user user_handler user_id of
        Inl e \<Rightarrow> Inl e
      | Inr user \<Rightarrow>
          fix_mention_users user_handler
            (py_replace (''@'' @ up_short_name user) (''@**'' @ up_full_name user @ ''**'') content')
            rest)"

definition fix_mentions ::
  "set_iter \<Rightarrow> user_handler \<Rightarrow> string \<Rightarrow> int set \<Rightarrow> py_error + string" where
  "fix_mentions set_iter user_handler content' mention_user_ids' =
     (case fix_mention_users user_handler content' (set_iter mention_user_ids') of
        Inl e \<Rightarrow> Inl e
      | Inr c \<Rightarrow> Inr (py_replace ''@here'' ''@**all**'' (py_replace ''@all'' ''@**all**'' c)))"

text \<open>
  The loop over the batch. Each raw message takes its id from the \<^verbatim>\<open>message\<close> counter
  first; a rewritten body of more than 10000 units is logged and skipped; otherwise the
  message is appended and its reactions are built. An exception ends the run. The
  \<^verbatim>\<open>mention_map\<close> the loop fills is read only by \<^verbatim>\<open>make_user_messages\<close> and is not
  kept here.
\<close>

fun raw_message_loop ::
  "set_iter \<Rightarrow> user_handler \<Rightarrow> (string \<rightharpoonup> string) \<Rightarrow> raw_message list \<Rightarrow> zerver_message list \<times> conv_state
     \<Rightarrow> py_error + zerver_message list \<times> conv_state" where
  "raw_message_loop set_iter user_handler name_to_codepoint [] acc = Inr acc"
| "raw_message_loop set_iter user_handler name_to_codepoint (raw_message # rest) (zerver_message', st) =
     (let (message_id, sq1) = NEXT_ID (cs_seq st) ''message''
      in case fix_mentions set_iter user_handler (content raw_message) (mention_user_ids raw_message) of
           Inl e \<Rightarrow> Inl e
         | Inr content' \<Rightarrow>
             if length content' > 10000 then
               raw_message_loop set_iter user_handler name_to_codepoint rest
                 (zerver_message', st\<lparr>cs_seq := sq1, cs_log := cs_log st @ [length content']\<rparr>)
             else
               (let message = build_message content' message_id (date_sent raw_message)
                                (recipient_id raw_message) None (topic_name raw_message)
                                (sender_id raw_message) False;
                    (sq2, reactions') = build_reactions name_to_codepoint (reactions raw_message)
                                          message_id (sq1, cs_total_reactions st)
                in raw_message_loop set_iter user_handler name_to_codepoint rest
                     (zerver_message' @ [message],
                      st\<lparr>cs_seq := sq2, cs_total_reactions := reactions'\<rparr>)))"

definition message_file :: "int \<Rightarrow> string" where
  "message_file dump_file_id = ''/messages-'' @ format_06 dump_file_id @ ''.json''"

definition process_raw_message_batch ::
  "int \<Rightarrow> raw_message list \<Rightarrow> (int \<rightharpoonup> int set) \<Rightarrow> set_iter \<Rightarrow> user_handler
     \<Rightarrow> (string \<rightharpoonup> string) \<Rightarrow> conv_state \<Rightarrow> py_error + conv_state" where
  "process_raw_message_batch realm_id raw_messages subscriber_map set_iter user_handler
       name_to_codepoint st =
     (case raw_message_loop set_iter user_handler name_to_codepoint raw_messages ([], st) of
        Inl e \<Rightarrow> Inl e
      | Inr (zerver_message', st1) \<Rightarrow>
          (let zerver_usermessage = make_user_messages zerver_message' subscriber_map;
               message_json = \<lparr>mj_zerver_message = zerver_message',
                               mj_zerver_usermessage = zerver_usermessage\<rparr>;
               (dump_file_id, sq) = NEXT_ID (cs_seq st1) (''dump_file_id'' @ str_int realm_id)
           in Inr (st1\<lparr>cs_seq := sq,
                        cs_files := cs_files st1 @ [(message_file dump_file_id, message_json)]\<rparr>)))"

subsection \<open>\<^verbatim>\<open>process_list_in_batches\<close>\<close>

text \<open>
  Modelled from the spec: \<^verbatim>\<open>process_list_in_batches\<close> of \<^verbatim>\<open>zerver/lib/utils.py\<close>
  (not among the sources at hand). Section 4.8: the ordered sequence is processed in
  contiguous chunks of a fixed size, in order, a chunk never splitting a record; the
  last chunk holds what is left. Nothing is processed for an empty rest.
\<close>

function process_list_in_batches ::
  "'a list \<Rightarrow> nat \<Rightarrow> ('a list \<Rightarrow> 's \<Rightarrow> py_error + 's) \<Rightarrow> 's \<Rightarrow> py_error + 's" where
  "process_list_in_batches lst chunk_size process_batch st =
     (if lst = [] \<or> chunk_size = 0 then Inr st
      else (case process_batch (take chunk_size lst) st of
              Inl e \<Rightarrow> Inl e
            | Inr st1 \<Rightarrow> process_list_in_batches (drop chunk_size lst) chunk_size process_batch st1))"
  by pat_completeness auto
termination
  by (relation "measure (\<lambda>(lst, chunk_size, process_batch, st). length lst)") auto

subsection \<open>\<^verbatim>\<open>process_messages\<close>\<close>

text \<open>The inner loop of \<^verbatim>\<open>list_reactions\<close>: one entry per user name of a reaction code.\<close>

fun reaction_users ::
  "(string \<rightharpoonup> string) \<Rightarrow> string \<Rightarrow> string list \<Rightarrow> reaction_entry list \<times> id_mapper
     \<Rightarrow> py_error + reaction_entry list \<times> id_mapper" where
  "reaction_users username_to_user_id_map name [] acc = Inr acc"
| "reaction_users username_to_user_id_map name (username # rest) (reactions_list, um) =
     (case lookup username_to_user_id_map username of
        Inl e \<Rightarrow> Inl e
      | Inr rc_user_id \<Rightarrow>
          (let (user_id, um1) = mapper_get um rc_user_id
           in reaction_users username_to_user_id_map name rest
                (reactions_list @ [\<lparr>re_name = name, re_user_id = user_id\<rparr>], um1)))"

fun list_reactions_loop ::
  "(string \<rightharpoonup> string) \<Rightarrow> (string \<times> string list) list \<Rightarrow> reaction_entry list \<times> id_mapper
     \<Rightarrow> py_error + reaction_entry list \<times> id_mapper" where
  "list_reactions_loop username_to_user_id_map [] acc = Inr acc"
| "list_reactions_loop username_to_user_id_map ((react_code, usernames) # rest) acc =
     (case index (py_split (CHR '':'') react_code) 1 of
        Inl e \<Rightarrow> Inl e
      | Inr name \<Rightarrow>
          (case reaction_users username_to_user_id_map name usernames acc of
             Inl e \<Rightarrow> Inl e
           | Inr acc1 \<Rightarrow> list_reactions_loop username_to_user_id_map rest acc1))"

definition list_reactions ::
  "(string \<rightharpoonup> string) \<Rightarrow> (string \<times> string list) list \<Rightarrow> id_mapper
     \<Rightarrow> py_error + reaction_entry list \<times> id_mapper" where
  "list_reactions username_to_user_id_map reactions' um =
     list_reactions_loop username_to_user_id_map reactions' ([], um)"

text \<open>The loop over \<^verbatim>\<open>message.get("mentions", [])\<close>, adding to the set of mentioned ids.\<close>

fun mention_loop :: "string list \<Rightarrow> int set \<times> id_mapper \<Rightarrow> int set \<times> id_mapper" where
  "mention_loop [] acc = acc"
| "mention_loop (mention_id # rest) (mention_user_ids', um) =
     (if mention_id \<in> set [''all'', ''here''] then mention_loop rest (mention_user_ids', um)
      else (let (user_id, um1) = mapper_get um mention_id
            in mention_loop rest (insert user_id mention_user_ids', um1)))"

text \<open>
  The recipient and topic of a message, the three-way branch of \<^verbatim>\<open>message_to_dict\<close>.
  It runs after the sender and the reactions have gone through the user id mapper.
\<close>

definition recipient_and_topic ::
  "bool \<Rightarrow> (int \<rightharpoonup> int) \<Rightarrow> (int \<rightharpoonup> int) \<Rightarrow> (string \<rightharpoonup> rc_channel) \<Rightarrow> (string \<rightharpoonup> rc_channel)
     \<Rightarrow> rc_message \<Rightarrow> mappers \<Rightarrow> py_error + (int \<times> string) \<times> mappers" where
  "recipient_and_topic is_pm_data user_id_to_recipient_id stream_id_to_recipient_id
       direct_id_to_direct_map dsc_id_to_dsc_map message ms =
     (let rc_sender_id = m_u_id message in
      if is_pm_data then
        (case field (m_rid message) of Inl e \<Rightarrow> Inl e | Inr direct_channel_id \<Rightarrow>
         case lookup direct_id_to_direct_map direct_channel_id of Inl e \<Rightarrow> Inl e | Inr ch \<Rightarrow>
         case field (ch_uids ch) of Inl e \<Rightarrow> Inl e | Inr rc_member_ids \<Rightarrow>
         case index rc_member_ids 0 of Inl e \<Rightarrow> Inl e | Inr first \<Rightarrow>
         if rc_sender_id = first then
           (case index rc_member_ids 1 of Inl e \<Rightarrow> Inl e | Inr second \<Rightarrow>
            let (zulip_member_id, um1) = mapper_get (user_id_mapper ms) second in
            case lookup user_id_to_recipient_id zulip_member_id of Inl e \<Rightarrow> Inl e | Inr r \<Rightarrow>
            Inr ((r, []), ms\<lparr>user_id_mapper := um1\<rparr>))
         else
           (let (zulip_member_id, um1) = mapper_get (user_id_mapper ms) first in
            case lookup user_id_to_recipient_id zulip_member_id of Inl e \<Rightarrow> Inl e | Inr r \<Rightarrow>
            Inr ((r, []), ms\<lparr>user_id_mapper := um1\<rparr>)))
      else
        (case field (m_rid message) of Inl e \<Rightarrow> Inl e | Inr rid \<Rightarrow>
         case dsc_id_to_dsc_map rid of
           Some dsc_channel \<Rightarrow>
             (case field (ch_prid dsc_channel) of Inl e \<Rightarrow> Inl e | Inr parent_channel_id \<Rightarrow>
              let (stream_id, sm1) = mapper_get (stream_id_mapper ms) parent_channel_id in
              case lookup stream_id_to_recipient_id stream_id of Inl e \<Rightarrow> Inl e | Inr r \<Rightarrow>
              case field (ch_fname dsc_channel) of Inl e \<Rightarrow> Inl e | Inr fname \<Rightarrow>
              Inr ((r, ''(Discussion) '' @ fname), ms\<lparr>stream_id_mapper := sm1\<rparr>))
         | None \<Rightarrow>
             (let (stream_id, sm1) = mapper_get (stream_id_mapper ms) rid in
              case lookup stream_id_to_recipient_id stream_id of Inl e \<Rightarrow> Inl e | Inr r \<Rightarrow>
              Inr ((r, ''Imported from Rocket.Chat''), ms\<lparr>stream_id_mapper := sm1\<rparr>))))"

definition message_to_dict ::
  "bool \<Rightarrow> (string \<rightharpoonup> string) \<Rightarrow> (int \<rightharpoonup> int) \<Rightarrow> (int \<rightharpoonup> int) \<Rightarrow> (string \<rightharpoonup> rc_channel)
     \<Rightarrow> (string \<rightharpoonup> rc_channel) \<Rightarrow> rc_message \<Rightarrow> mappers \<Rightarrow> py_error + raw_message \<times> mappers" where
  "message_to_dict is_pm_data username_to_user_id_map user_id_to_recipient_id
       stream_id_to_recipient_id direct_id_to_direct_map dsc_id_to_dsc_map message ms =
     (let rc_sender_id = m_u_id message;
          (sender_id', um1) = mapper_get (user_id_mapper ms) rc_sender_id;
          content' = m_msg message
      in case (case m_reactions message of
                 None \<Rightarrow> Inr ([], um1)
               | Some rs \<Rightarrow> if rs = [] then Inr ([], um1)
                            else list_reactions username_to_user_id_map rs um1) of
           Inl e \<Rightarrow> Inl e
         | Inr (reactions', um2) \<Rightarrow>
             (case recipient_and_topic is_pm_data user_id_to_recipient_id
                     stream_id_to_recipient_id direct_id_to_direct_map dsc_id_to_dsc_map message
                     (ms\<lparr>user_id_mapper := um2\<rparr>) of
                Inl e \<Rightarrow> Inl e
              | Inr ((recipient_id', topic_name'), ms1) \<Rightarrow>
                  (let (mention_user_ids', um3) =
                         mention_loop (case m_mentions message of None \<Rightarrow> [] | Some xs \<Rightarrow> xs)
                           ({}, user_id_mapper ms1)
                   in Inr (\<lparr>sender_id = sender_id', content = content',
                             date_sent = m_ts message, reactions = reactions',
                             recipient_id = recipient_id', topic_name = topic_name',
                             mention_user_ids = mention_user_ids'\<rparr>,
                           ms1\<lparr>user_id_mapper := um3\<rparr>))))"

text \<open>The first loop of \<^verbatim>\<open>process_messages\<close>: a message with a type tag is passed over.\<close>

fun convert_loop ::
  "(rc_message \<Rightarrow> mappers \<Rightarrow> py_error + raw_message \<times> mappers) \<Rightarrow> rc_message list
     \<Rightarrow> raw_message list \<times> mappers \<Rightarrow> py_error + raw_message list \<times> mappers" where
  "convert_loop to_dict [] acc = Inr acc"
| "convert_loop to_dict (message # rest) (raw_messages, ms) =
     (if m_t message \<noteq> None then convert_loop to_dict rest (raw_messages, ms)
      else (case to_dict message ms of
              Inl e \<Rightarrow> Inl e
            | Inr (d, ms1) \<Rightarrow> convert_loop to_dict rest (raw_messages @ [d], ms1)))"

definition process_messages ::
  "int \<Rightarrow> rc_message list \<Rightarrow> (int \<rightharpoonup> int set) \<Rightarrow> bool \<Rightarrow> (string \<rightharpoonup> string) \<Rightarrow> set_iter
     \<Rightarrow> user_handler \<Rightarrow> (int \<rightharpoonup> int) \<Rightarrow> (int \<rightharpoonup> int) \<Rightarrow> (string \<rightharpoonup> rc_channel) \<Rightarrow> (string \<rightharpoonup> rc_channel)
     \<Rightarrow> (string \<rightharpoonup> string) \<Rightarrow> mappers \<times> conv_state \<Rightarrow> py_error + mappers \<times> conv_state" where
  "process_messages realm_id messages subscriber_map is_pm_data username_to_user_id_map
       set_iter user_handler user_id_to_recipient_id stream_id_to_recipient_id
       direct_id_to_direct_map dsc_id_to_dsc_map name_to_codepoint = (\<lambda>(ms, st).
     (case convert_loop
             (message_to_dict is_pm_data username_to_user_id_map user_id_to_recipient_id
                stream_id_to_recipient_id direct_id_to_direct_map dsc_id_to_dsc_map)
             messages ([], ms) of
        Inl e \<Rightarrow> Inl e
      | Inr (raw_messages, ms1) \<Rightarrow>
          (case process_list_in_batches raw_messages 1000
                  (\<lambda>lst. process_raw_message_batch realm_id lst subscriber_map set_iter
                            user_handler name_to_codepoint)
                  st of
             Inl e \<Rightarrow> Inl e
           | Inr st1 \<Rightarrow> Inr (ms1, st1))))"

subsection \<open>\<^verbatim>\<open>separate_channel_and_private_messages\<close>\<close>

text \<open>
  A message with no \<^verbatim>\<open>rid\<close>, or an empty one, is left out of both lists; the others go
  to the private list when their \<^verbatim>\<open>rid\<close> is a key of the direct index, else to the
  channel list. The two lists are the ones passed in, extended at the end.
\<close>

fun separate_channel_and_private_messages ::
  "rc_message list \<Rightarrow> (string \<rightharpoonup> rc_channel) \<Rightarrow> rc_message list \<times> rc_message list
     \<Rightarrow> rc_message list \<times> rc_message list" where
  "separate_channel_and_private_messages [] direct_id_to_direct_map acc = acc"
| "separate_channel_and_private_messages (message # rest) direct_id_to_direct_map
       (channel_messages, private_messages) =
     (if \<not> truthy (m_rid message) then
        separate_channel_and_private_messages rest direct_id_to_direct_map
          (channel_messages, private_messages)
      else if the (m_rid message) \<in> dom direct_id_to_direct_map then
        separate_channel_and_private_messages rest direct_id_to_direct_map
          (channel_messages, private_messages @ [message])
      else
        separate_channel_and_private_messages rest direct_id_to_direct_map
          (channel_messages @ [message], private_messages))"

subsection \<open>\<^verbatim>\<open>categorize_channels_and_map_with_id\<close>\<close>

text \<open>The four indexes the classifier fills, each keyed by an id.\<close>

record channel_maps =
  cm_room :: "string \<rightharpoonup> rc_channel"
  cm_team :: "string \<rightharpoonup> rc_channel"
  cm_dsc :: "string \<rightharpoonup> rc_channel"
  cm_direct :: "string \<rightharpoonup> rc_channel"

definition empty_maps :: channel_maps where
  "empty_maps = \<lparr>cm_room = Map.empty, cm_team = Map.empty, cm_dsc = Map.empty,
                  cm_direct = Map.empty\<rparr>"

fun categorize_channels_and_map_with_id ::
  "rc_channel list \<Rightarrow> channel_maps \<Rightarrow> py_error + channel_maps" where
  "categorize_channels_and_map_with_id [] maps = Inr maps"
| "categorize_channels_and_map_with_id (channel # rest) maps =
     (if truthy (ch_prid channel) then
        categorize_channels_and_map_with_id rest
          (maps\<lparr>cm_dsc := (cm_dsc maps)(ch_id channel \<mapsto> channel)\<rparr>)
      else if ch_t channel = ''d'' then
        categorize_channels_and_map_with_id rest
          (maps\<lparr>cm_direct := (cm_direct maps)(ch_id channel \<mapsto> channel)\<rparr>)
      else
        (let maps1 = maps\<lparr>cm_room := (cm_room maps)(ch_id channel \<mapsto> channel)\<rparr>
         in if ch_teamMain channel = Some True then
              (case field (ch_teamId channel) of
                 Inl e \<Rightarrow> Inl e
               | Inr team_id \<Rightarrow>
                   categorize_channels_and_map_with_id rest
                     (maps1\<lparr>cm_team := (cm_team maps1)(team_id \<mapsto> channel)\<rparr>))
            else categorize_channels_and_map_with_id rest maps1))"

section \<open>The older variant: \<^verbatim>\<open>rocketchat1.py\<close>\<close>

text \<open>
  The functions of \<^verbatim>\<open>rocketchat1.py\<close> that differ from their namesakes carry the
  suffix \<open>1\<close>. Its \<^verbatim>\<open>message_to_dict\<close> builds no reactions and has other fixed topics;
  its \<^verbatim>\<open>separate_channel_and_private_messages\<close> reads \<^verbatim>\<open>message["rid"]\<close> with no
  test first and is given the keys of the direct index; its batch loop builds no
  reactions.
\<close>

definition recipient_and_topic1 ::
  "bool \<Rightarrow> (int \<rightharpoonup> int) \<Rightarrow> (int \<rightharpoonup> int) \<Rightarrow> (string \<rightharpoonup> rc_channel) \<Rightarrow> (string \<rightharpoonup> rc_channel)
     \<Rightarrow> rc_message \<Rightarrow> mappers \<Rightarrow> py_error + (int \<times> string) \<times> mappers" where
  "recipient_and_topic1 is_pm_data user_id_to_recipient_id stream_id_to_recipient_id
       directid_direct_map dscid_dsc_map message ms =
     (let sender_rc_id = m_u_id message in
      if is_pm_data then
        (case field (m_rid message) of Inl e \<Rightarrow> Inl e | Inr direct_channel_id \<Rightarrow>
         case lookup directid_direct_map direct_channel_id of Inl e \<Rightarrow> Inl e | Inr ch \<Rightarrow>
         case field (ch_uids ch) of Inl e \<Rightarrow> Inl e | Inr rc_member_ids \<Rightarrow>
         case index rc_member_ids 0 of Inl e \<Rightarrow> Inl e | Inr first \<Rightarrow>
         if sender_rc_id = first then
           (case index rc_member_ids 1 of Inl e \<Rightarrow> Inl e | Inr second \<Rightarrow>
            let (zulip_member_id, um1) = mapper_get (user_id_mapper ms) second in
            case lookup user_id_to_recipient_id zulip_member_id of Inl e \<Rightarrow> Inl e | Inr r \<Rightarrow>
            Inr ((r, ''Imported from rocketchat''), ms\<lparr>user_id_mapper := um1\<rparr>))
         else
           (let (zulip_member_id, um1) = mapper_get (user_id_mapper ms) first in
            case lookup user_id_to_recipient_id zulip_member_id of Inl e \<Rightarrow> Inl e | Inr r \<Rightarrow>
            Inr ((r, ''Imported from rocketchat''), ms\<lparr>user_id_mapper := um1\<rparr>)))
      else
        (case field (m_rid message) of Inl e \<Rightarrow> Inl e | Inr rid \<Rightarrow>
         case dscid_dsc_map rid of
           Some dsc_channel \<Rightarrow>
             (case field (ch_prid dsc_channel) of Inl e \<Rightarrow> Inl e | Inr parent_channel_id \<Rightarrow>
              let (stream_id, sm1) = mapper_get (stream_id_mapper ms) parent_channel_id in
              case lookup stream_id_to_recipient_id stream_id of Inl e \<Rightarrow> Inl e | Inr r \<Rightarrow>
              case field (ch_fname dsc_channel) of Inl e \<Rightarrow> Inl e | Inr fname \<Rightarrow>
              Inr ((r, ''(Discussion) '' @ fname), ms\<lparr>stream_id_mapper := sm1\<rparr>))
         | None \<Rightarrow>
             (let (stream_id, sm1) = mapper_get (stream_id_mapper ms) rid in
              case lookup stream_id_to_recipient_id stream_id of Inl e \<Rightarrow> Inl e | Inr r \<Rightarrow>
              Inr ((r, ''Main channel content (imported from rocketchat)''),
                   ms\<lparr>stream_id_mapper := sm1\<rparr>))))"

definition message_to_dict1 ::
  "bool \<Rightarrow> (int \<rightharpoonup> int) \<Rightarrow> (int \<rightharpoonup> int) \<Rightarrow> (string \<rightharpoonup> rc_channel) \<Rightarrow> (string \<rightharpoonup> rc_channel)
     \<Rightarrow> rc_message \<Rightarrow> mappers \<Rightarrow> py_error + raw_message \<times> mappers" where
  "message_to_dict1 is_pm_data user_id_to_recipient_id stream_id_to_recipient_id
       directid_direct_map dscid_dsc_map message ms =
     (let sender_rc_id = m_u_id message;
          (sender_id', um1) = mapper_get (user_id_mapper ms) sender_rc_id;
          content' = m_msg message;
          reactions' = []
      in case recipient_and_topic1 is_pm_data user_id_to_recipient_id stream_id_to_recipient_id
                directid_direct_map dscid_dsc_map message (ms\<lparr>user_id_mapper := um1\<rparr>) of
           Inl e \<Rightarrow> Inl e
         | Inr ((recipient_id', topic_name'), ms1) \<Rightarrow>
             (let (mention_user_ids', um3) =
                    mention_loop (case m_mentions message of None \<Rightarrow> [] | Some xs \<Rightarrow> xs)
                      ({}, user_id_mapper ms1)
              in Inr (\<lparr>sender_id = sender_id', content = content',
                        date_sent = m_ts message, reactions = reactions',
                        recipient_id = recipient_id', topic_name = topic_name',
                        mention_user_ids = mention_user_ids'\<rparr>,
                      ms1\<lparr>user_id_mapper := um3\<rparr>)))"

fun separate_channel_and_private_messages1 ::
  "rc_message list \<Rightarrow> string set \<Rightarrow> rc_message list \<times> rc_message list
     \<Rightarrow> py_error + rc_message list \<times> rc_message list" where
  "separate_channel_and_private_messages1 [] direct_room_list acc = Inr acc"
| "separate_channel_and_private_messages1 (message # rest) direct_room_list
       (channel_messages, private_messages) =
     (case field (m_rid message) of
        Inl e \<Rightarrow> Inl e
      | Inr rid \<Rightarrow>
          if rid \<in> direct_room_list then
            separate_channel_and_private_messages1 rest direct_room_list
              (channel_messages, private_messages @ [message])
          else
            separate_channel_and_private_messages1 rest direct_room_list
              (channel_messages @ [message], private_messages))"

fun raw_message_loop1 ::
  "set_iter \<Rightarrow> user_handler \<Rightarrow> raw_message list \<Rightarrow> zerver_message list \<times> conv_state
     \<Rightarrow> py_error + zerver_message list \<times> conv_state" where
  "raw_message_loop1 set_iter user_handler [] acc = Inr acc"
| "raw_message_loop1 set_iter user_handler (raw_message # rest) (zerver_message', st) =
     (let (message_id, sq1) = NEXT_ID (cs_seq st) ''message''
      in case fix_mentions set_iter user_handler (content raw_message) (mention_user_ids raw_message) of
           Inl e \<Rightarrow> Inl e
         | Inr content' \<Rightarrow>
             if length content' > 10000 then
               raw_message_loop1 set_iter user_handler rest
                 (zerver_message', st\<lparr>cs_seq := sq1, cs_log := cs_log st @ [length content']\<rparr>)
             else
               (let message = build_message content' message_id (date_sent raw_message)
                                (recipient_id raw_message) None (topic_name raw_message)
                                (sender_id raw_message) False
                in raw_message_loop1 set_iter user_handler rest
                     (zerver_message' @ [message], st\<lparr>cs_seq := sq1\<rparr>)))"

section \<open>Notions used in the statements\<close>

text \<open>
  What holds of an id mapper made with a given floor after any number of \<^verbatim>\<open>get\<close>
  calls: finitely many keys, no integer given twice, every integer between the floor and
  the counter, and the counter as far above the floor as there are keys.
\<close>

definition mapper_inv :: "int \<Rightarrow> id_mapper \<Rightarrow> bool" where
  "mapper_inv floor m =
     (finite (dom (id_map m)) \<and> inj_on (id_map m) (dom (id_map m)) \<and>
      (\<forall>k v. id_map m k = Some v \<longrightarrow> floor \<le> v \<and> v < id_cnt m) \<and>
      id_cnt m = floor + int (card (dom (id_map m))))"

text \<open>
  The category of a channel record in the words of section 4.3 of the spec: a discussion
  if it carries a parent-channel reference, else direct if its type tag is the direct
  marker, else a room. A reference is carried when \<^verbatim>\<open>channel.get("prid")\<close> is true in
  Python's sense.
\<close>

datatype category = Discussion | Direct | Room

definition spec_category :: "rc_channel \<Rightarrow> category" where
  "spec_category c =
     (if truthy (ch_prid c) then Discussion else if ch_t c = ''d'' then Direct else Room)"

text \<open>
  The one record the classifier cannot file: a room flagged as a team's main channel
  that has no team id, on which \<^verbatim>\<open>channel["teamId"]\<close> raises.
\<close>

definition lacks_team_id :: "rc_channel \<Rightarrow> bool" where
  "lacks_team_id c = (spec_category c = Room \<and> ch_teamMain c = Some True \<and> ch_teamId c = None)"

definition index_of :: "channel_maps \<Rightarrow> category \<Rightarrow> (string \<rightharpoonup> rc_channel)" where
  "index_of maps cat = (case cat of Discussion \<Rightarrow> cm_dsc maps | Direct \<Rightarrow> cm_direct maps
                        | Room \<Rightarrow> cm_room maps)"

text \<open>
  Every entry of an index is a record of \<open>S\<close> of the index's category, filed under its
  own id; every entry of the team index is a room of \<open>S\<close> flagged as the main channel of
  the team it is filed under.
\<close>

definition maps_wf :: "rc_channel set \<Rightarrow> channel_maps \<Rightarrow> bool" where
  "maps_wf S maps =
     ((\<forall>cat k c. index_of maps cat k = Some c \<longrightarrow> c \<in> S \<and> ch_id c = k \<and> spec_category c = cat) \<and>
      (\<forall>k c. cm_team maps k = Some c \<longrightarrow>
         c \<in> S \<and> ch_teamId c = Some k \<and> ch_teamMain c = Some True \<and> spec_category c = Room))"

text \<open>One step of the classifier's loop, as a function of the record's category.\<close>

definition categorize_step :: "rc_channel \<Rightarrow> channel_maps \<Rightarrow> channel_maps" where
  "categorize_step c maps =
     (case spec_category c of
        Discussion \<Rightarrow> maps\<lparr>cm_dsc := (cm_dsc maps)(ch_id c \<mapsto> c)\<rparr>
      | Direct \<Rightarrow> maps\<lparr>cm_direct := (cm_direct maps)(ch_id c \<mapsto> c)\<rparr>
      | Room \<Rightarrow>
          (if ch_teamMain c = Some True
           then maps\<lparr>cm_room := (cm_room maps)(ch_id c \<mapsto> c),
                      cm_team := (cm_team maps)(the (ch_teamId c) \<mapsto> c)\<rparr>
           else maps\<lparr>cm_room := (cm_room maps)(ch_id c \<mapsto> c)\<rparr>))"

text \<open>
  The reactions of a message that \<^verbatim>\<open>list_reactions\<close> can read: every reaction code has
  a part after its first colon, and every user name under it is a key of
  \<^verbatim>\<open>username_to_user_id_map\<close>.
\<close>

definition reactions_ok :: "(string \<rightharpoonup> string) \<Rightarrow> rc_message \<Rightarrow> bool" where
  "reactions_ok un message =
     (case m_reactions message of
        None \<Rightarrow> True
      | Some rs \<Rightarrow> (\<forall>(code, names)\<in>set rs.
                     1 < length (py_split (CHR '':'') code) \<and> set names \<subseteq> dom un))"

text \<open>
  A small export used to run the definitions: a public room that is the main channel of
  a team, a discussion under it titled "Bug Triage", a private room of no team, and a
  direct channel of the users \<open>A\<close> and \<open>B\<close>.
\<close>

definition example_room :: rc_channel where
  "example_room = \<lparr>ch_id = ''R1'', ch_t = ''c'', ch_prid = None, ch_fname = None,
                     ch_teamMain = Some True, ch_teamId = Some ''T1'', ch_uids = None\<rparr>"

definition example_discussion :: rc_channel where
  "example_discussion = \<lparr>ch_id = ''D1'', ch_t = ''p'', ch_prid = Some ''R1'',
                           ch_fname = Some ''Bug Triage'', ch_teamMain = None,
                           ch_teamId = None, ch_uids = None\<rparr>"

definition example_direct :: rc_channel where
  "example_direct = \<lparr>ch_id = ''AB'', ch_t = ''d'', ch_prid = None, ch_fname = None,
                       ch_teamMain = None, ch_teamId = None, ch_uids = Some [''A'', ''B'']\<rparr>"

definition example_plain_room :: rc_channel where
  "example_plain_room = \<lparr>ch_id = ''R2'', ch_t = ''p'', ch_prid = None, ch_fname = None,
                           ch_teamMain = None, ch_teamId = None, ch_uids = None\<rparr>"

definition example_channels :: "rc_channel list" where
  "example_channels = [example_room, example_discussion, example_plain_room, example_direct]"

text \<open>The four indexes of the small export.\<close>

definition example_maps :: channel_maps where
  "example_maps =
     \<lparr>cm_room = [''R1'' \<mapsto> example_room, ''R2'' \<mapsto> example_plain_room],
      cm_team = [''T1'' \<mapsto> example_room],
      cm_dsc = [''D1'' \<mapsto> example_discussion],
      cm_direct = [''AB'' \<mapsto> example_direct]\<rparr>"

text \<open>An id mapper that has kept every assignment of another.\<close>

definition mapper_le :: "id_mapper \<Rightarrow> id_mapper \<Rightarrow> bool" where
  "mapper_le m m' = (\<forall>k v. id_map m k = Some v \<longrightarrow> id_map m' k = Some v)"

text \<open>
  The reactions step of \<^verbatim>\<open>message_to_dict\<close>: \<^verbatim>\<open>list_reactions\<close> when the message
  has a non-empty reaction dictionary, no reactions otherwise.
\<close>

definition reactions_step ::
  "(string \<rightharpoonup> string) \<Rightarrow> rc_message \<Rightarrow> id_mapper \<Rightarrow> py_error + reaction_entry list \<times> id_mapper"
  where
  "reactions_step username_to_user_id_map message um =
     (case m_reactions message of
        None \<Rightarrow> Inr ([], um)
      | Some rs \<Rightarrow> if rs = [] then Inr ([], um)
                   else list_reactions username_to_user_id_map rs um)"
text \<open>
  The stores that go with the small export: the users \<open>A\<close> and \<open>B\<close> have the integers 0
  and 1, the room \<open>R1\<close> has the stream id 0; the personal recipients are 100 and 101, the
  stream recipient is 200.
\<close>

definition example_mappers :: mappers where
  "example_mappers =
     \<lparr>user_id_mapper = \<lparr>id_map = [''A'' \<mapsto> 0, ''B'' \<mapsto> 1], id_cnt = 2\<rparr>,
      stream_id_mapper = \<lparr>id_map = [''R1'' \<mapsto> 0], id_cnt = 1\<rparr>\<rparr>"

definition example_user_recipients :: "int \<rightharpoonup> int" where
  "example_user_recipients = [0 \<mapsto> 100, 1 \<mapsto> 101]"

definition example_stream_recipients :: "int \<rightharpoonup> int" where
  "example_stream_recipients = [0 \<mapsto> 200]"

definition example_message :: "string \<Rightarrow> string \<Rightarrow> string \<Rightarrow> rc_message" where
  "example_message rid sender body =
     \<lparr>m_rid = Some rid, m_u_id = sender, m_msg = body, m_ts = 1600000000, m_t = None,
      m_reactions = None, m_mentions = None\<rparr>"

text \<open>The user names of the small export, and a message of it with a reaction by bob.\<close>

definition example_usernames :: "string \<rightharpoonup> string" where
  "example_usernames = [''alice'' \<mapsto> ''A'', ''bob'' \<mapsto> ''B'']"

definition example_reacted :: "string \<Rightarrow> string \<Rightarrow> string \<Rightarrow> rc_message" where
  "example_reacted rid sender body =
     (example_message rid sender body)\<lparr>m_reactions := Some [('':smile:'', [''bob''])]\<rparr>"

text \<open>
  One turn of the loop of \<^verbatim>\<open>fix_mentions\<close> for a known user: the user's source
  mention is replaced by the target mention.
\<close>

definition mention_step :: "user_handler \<Rightarrow> string \<Rightarrow> int \<Rightarrow> string" where
  "mention_step uh body user_id =
     py_replace (''@'' @ up_short_name (the (uh user_id)))
       (''@**'' @ up_full_name (the (uh user_id)) @ ''**'') body"

text \<open>
  The body of a raw message after \<^verbatim>\<open>fix_mentions\<close>, and the two outcomes of the length
  test of the batch loop on it.
\<close>

definition rewritten :: "set_iter \<Rightarrow> user_handler \<Rightarrow> raw_message \<Rightarrow> py_error + string" where
  "rewritten it uh r = fix_mentions it uh (content r) (mention_user_ids r)"

definition too_long :: "set_iter \<Rightarrow> user_handler \<Rightarrow> raw_message \<Rightarrow> bool" where
  "too_long it uh r = (case rewritten it uh r of Inl e \<Rightarrow> False | Inr c \<Rightarrow> length c > 10000)"

definition kept :: "set_iter \<Rightarrow> user_handler \<Rightarrow> raw_message \<Rightarrow> bool" where
  "kept it uh r = (case rewritten it uh r of Inl e \<Rightarrow> False | Inr c \<Rightarrow> length c \<le> 10000)"

text \<open>
  The messages a batch emits when the \<^verbatim>\<open>message\<close> counter stands at \<open>c\<close>: every raw
  message takes the next id, and those kept become target messages.
\<close>

fun emitted :: "set_iter \<Rightarrow> user_handler \<Rightarrow> int \<Rightarrow> raw_message list \<Rightarrow> zerver_message list" where
  "emitted it uh c [] = []"
| "emitted it uh c (r # rs) =
     (case rewritten it uh r of
        Inl e \<Rightarrow> emitted it uh (c + 1) rs
      | Inr body \<Rightarrow>
          if length body > 10000 then emitted it uh (c + 1) rs
          else build_message body c (date_sent r) (recipient_id r) None (topic_name r)
                 (sender_id r) False # emitted it uh (c + 1) rs)"

text \<open>The lengths the batch loop logs: those of the bodies that are too long, in order.\<close>

fun logged :: "set_iter \<Rightarrow> user_handler \<Rightarrow> raw_message list \<Rightarrow> nat list" where
  "logged it uh [] = []"
| "logged it uh (r # rs) =
     (case rewritten it uh r of
        Inl e \<Rightarrow> logged it uh rs
      | Inr body \<Rightarrow> if length body > 10000 then length body # logged it uh rs else logged it uh rs)"

text \<open>A list of integers that counts up by one from its first element.\<close>

definition contiguous :: "int list \<Rightarrow> bool" where
  "contiguous ids = (ids = map (\<lambda>i. hd ids + int i) [0..<length ids])"

text \<open>The name of the counter that numbers the message files of a realm.\<close>

definition dump_counter :: "int \<Rightarrow> string" where
  "dump_counter realm_id = ''dump_file_id'' @ str_int realm_id"

text \<open>The contiguous chunks of a list, and a run of a batch procedure over given chunks.\<close>

function chunks :: "nat \<Rightarrow> 'a list \<Rightarrow> 'a list list" where
  "chunks n xs = (if xs = [] \<or> n = 0 then [] else take n xs # chunks n (drop n xs))"
  by pat_completeness auto
termination
  by (relation "measure (\<lambda>(n, xs). length xs)") auto

fun run_batches :: "('a list \<Rightarrow> 's \<Rightarrow> py_error + 's) \<Rightarrow> 'a list list \<Rightarrow> 's \<Rightarrow> py_error + 's" where
  "run_batches process_batch [] st = Inr st"
| "run_batches process_batch (b # bs) st =
     (case process_batch b st of Inl e \<Rightarrow> Inl e | Inr st1 \<Rightarrow> run_batches process_batch bs st1)"

text \<open>
  Converted records for running the batch: a message from user 0 in the stream with
  recipient 200 with a given body and one reaction, the emoji table for it, no known
  users, and the state of a fresh run. \<open>long_body\<close> has 10001 units.
\<close>

definition example_raw :: "string \<Rightarrow> raw_message" where
  "example_raw body =
     \<lparr>sender_id = 0, content = body, date_sent = 1600000000,
      reactions = [\<lparr>re_name = ''smile'', re_user_id = 1\<rparr>], recipient_id = 200,
      topic_name = ''Imported from Rocket.Chat'', mention_user_ids = {}\<rparr>"

definition example_emoji :: "string \<rightharpoonup> string" where
  "example_emoji = [''smile'' \<mapsto> ''1f604'']"

definition example_state :: conv_state where
  "example_state = \<lparr>cs_seq = Map.empty, cs_total_reactions = [], cs_files = [], cs_log = []\<rparr>"

definition long_body :: string where
  "long_body = replicate 10001 (CHR ''a'')"

text \<open>
  A user handler that knows alice, with the id 7, and bob, with the id 8, and an
  iteration order for sets of ids from 0 to 9, by size.
\<close>

definition example_users :: user_handler where
  "example_users =
     [7 \<mapsto> \<lparr>up_id = 7, up_short_name = ''alice'', up_full_name = ''Alice Smith''\<rparr>,
      8 \<mapsto> \<lparr>up_id = 8, up_short_name = ''bob'', up_full_name = ''Bob Ray''\<rparr>]"

definition example_iter :: set_iter where
  "example_iter S = filter (\<lambda>i. i \<in> S) [0, 1, 2, 3, 4, 5, 6, 7, 8, 9]"

section \<open>Properties\<close>

subsection \<open>The id mapper\<close>

lemma mapper_inv_init: "mapper_inv floor (IdMapper_from floor)"
  by (simp add: mapper_inv_def IdMapper_from_def)

lemma mapper_get_seen: "id_map m k = Some v \<Longrightarrow> mapper_get m k = (v, m)"
  by (simp add: mapper_get_def)

lemma mapper_get_new:
  "id_map m k = None \<Longrightarrow>
   mapper_get m k = (id_cnt m, m\<lparr>id_map := (id_map m)(k \<mapsto> id_cnt m), id_cnt := id_cnt m + 1\<rparr>)"
  by (simp add: mapper_get_def)

lemma mapper_get_records: "mapper_get m k = (v, m') \<Longrightarrow> id_map m' k = Some v"
  by (auto simp: mapper_get_def split: option.splits)

lemma mapper_get_keeps: "mapper_get m k = (v, m') \<Longrightarrow> id_map m k' = Some w \<Longrightarrow> id_map m' k' = Some w"
  by (auto simp: mapper_get_def split: option.splits)

lemma mapper_get_dom: "mapper_get m k = (v, m') \<Longrightarrow> dom (id_map m') = insert k (dom (id_map m))"
  by (auto simp: mapper_get_def split: option.splits)

lemma mapper_get_inv:
  assumes "mapper_inv floor m" "mapper_get m k = (v, m')"
  shows "mapper_inv floor m'"
proof (cases "id_map m k")
  case (Some w)
  with assms show ?thesis by (simp add: mapper_get_def)
next
  case None
  with assms(2) have m': "m' = m\<lparr>id_map := (id_map m)(k \<mapsto> id_cnt m), id_cnt := id_cnt m + 1\<rparr>"
    by (auto simp: mapper_get_def)
  from assms(1) have fin: "finite (dom (id_map m))"
    and inj: "inj_on (id_map m) (dom (id_map m))"
    and bnd: "\<And>k v. id_map m k = Some v \<Longrightarrow> floor \<le> v \<and> v < id_cnt m"
    and cnt: "id_cnt m = floor + int (card (dom (id_map m)))"
    by (auto simp: mapper_inv_def)
  from None have notin: "k \<notin> dom (id_map m)" by (simp add: domIff)
  have "inj_on ((id_map m)(k \<mapsto> id_cnt m)) (insert k (dom (id_map m)))"
  proof (rule inj_onI)
    fix x y
    assume x: "x \<in> insert k (dom (id_map m))" and y: "y \<in> insert k (dom (id_map m))"
      and eq: "((id_map m)(k \<mapsto> id_cnt m)) x = ((id_map m)(k \<mapsto> id_cnt m)) y"
    show "x = y"
    proof (cases "x = k")
      case True
      show ?thesis
      proof (cases "y = k")
        case True with \<open>x = k\<close> show ?thesis by simp
      next
        case False
        with y obtain w where "id_map m y = Some w" by auto
        with bnd[of y w] eq True False show ?thesis by simp
      qed
    next
      case False
      with x obtain w where w: "id_map m x = Some w" by auto
      show ?thesis
      proof (cases "y = k")
        case True
        with bnd[of x w] w eq False show ?thesis by simp
      next
        case yk: False
        with y have "y \<in> dom (id_map m)" by simp
        moreover from x False have "x \<in> dom (id_map m)" by simp
        moreover from eq False yk have "id_map m x = id_map m y" by simp
        ultimately show ?thesis using inj by (simp add: inj_on_def)
      qed
    qed
  qed
  moreover have "\<And>k' v. ((id_map m)(k \<mapsto> id_cnt m)) k' = Some v \<Longrightarrow> floor \<le> v \<and> v < id_cnt m + 1"
    using bnd cnt by (fastforce split: if_splits)
  moreover have "id_cnt m + 1 = floor + int (card (insert k (dom (id_map m))))"
    using fin notin cnt by simp
  ultimately show ?thesis
    using fin unfolding m' mapper_inv_def by simp
qed

lemma mapper_gets_append:
  "mapper_gets m (xs @ ys) =
     (let (vs1, m1) = mapper_gets m xs; (vs2, m2) = mapper_gets m1 ys in (vs1 @ vs2, m2))"
  by (induction xs arbitrary: m) (auto split: prod.splits)

lemma mapper_gets_props:
  "mapper_inv floor m \<Longrightarrow> mapper_gets m ks = (vs, m') \<Longrightarrow>
   length vs = length ks \<and> mapper_inv floor m' \<and>
   dom (id_map m') = dom (id_map m) \<union> set ks \<and>
   (\<forall>k w. id_map m k = Some w \<longrightarrow> id_map m' k = Some w) \<and>
   (\<forall>i<length ks. id_map m' (ks ! i) = Some (vs ! i))"
proof (induction ks arbitrary: m vs)
  case Nil
  then show ?case by simp
next
  case (Cons k ks)
  obtain v m1 where g: "mapper_get m k = (v, m1)" by (cases "mapper_get m k")
  obtain vs1 where r: "mapper_gets m1 ks = (vs1, m')" and vs: "vs = v # vs1"
    using Cons.prems(2) g by (auto split: prod.splits)
  have inv1: "mapper_inv floor m1" using mapper_get_inv[OF Cons.prems(1) g] .
  note IH = Cons.IH[OF inv1 r]
  have rec: "id_map m' k = Some v" using IH mapper_get_records[OF g] by blast
  have "\<forall>i<length (k # ks). id_map m' ((k # ks) ! i) = Some (vs ! i)"
  proof (intro allI impI)
    fix i assume "i < length (k # ks)"
    then show "id_map m' ((k # ks) ! i) = Some (vs ! i)"
      using IH rec vs by (cases i) auto
  qed
  moreover have "dom (id_map m') = dom (id_map m) \<union> set (k # ks)"
    using IH mapper_get_dom[OF g] by auto
  moreover have "\<forall>k' w. id_map m k' = Some w \<longrightarrow> id_map m' k' = Some w"
    using IH mapper_get_keeps[OF g] by blast
  ultimately show ?case using IH vs by simp
qed

text \<open>
  C4. Within one run and one id mapper, \<^verbatim>\<open>get\<close> is stable and injective: over any
  sequence of calls on a mapper made with floor \<open>floor\<close>, two calls return the same
  integer exactly when they were given the same key. A key not seen before gets the
  next integer, counted from the floor: the floor plus the number of distinct keys seen
  before it.
\<close>

theorem idmapper_get_injective_stable_next:
  assumes "mapper_gets (IdMapper_from floor) ks = (vs, m)"
  shows "length vs = length ks \<and>
         (\<forall>i<length ks. \<forall>j<length ks. (vs ! i = vs ! j) = (ks ! i = ks ! j)) \<and>
         (\<forall>i<length ks. ks ! i \<notin> set (take i ks) \<longrightarrow>
              vs ! i = floor + int (card (set (take i ks))))"
proof -
  note P = mapper_gets_props[OF mapper_inv_init assms]
  have len: "length vs = length ks" using P by simp
  from P have "mapper_inv floor m" by blast
  then have inj: "inj_on (id_map m) (dom (id_map m))" unfolding mapper_inv_def by blast
  have rec: "\<And>i. i < length ks \<Longrightarrow> id_map m (ks ! i) = Some (vs ! i)" using P by simp
  have a: "\<forall>i<length ks. \<forall>j<length ks. (vs ! i = vs ! j) = (ks ! i = ks ! j)"
  proof (intro allI impI)
    fix i j assume i: "i < length ks" and j: "j < length ks"
    show "(vs ! i = vs ! j) = (ks ! i = ks ! j)"
    proof
      assume "vs ! i = vs ! j"
      then have "id_map m (ks ! i) = id_map m (ks ! j)" using rec[OF i] rec[OF j] by simp
      moreover have "ks ! i \<in> dom (id_map m)" "ks ! j \<in> dom (id_map m)"
        using rec[OF i] rec[OF j] by auto
      ultimately show "ks ! i = ks ! j" using inj by (simp add: inj_on_def)
    next
      assume "ks ! i = ks ! j"
      then show "vs ! i = vs ! j" using rec[OF i] rec[OF j] by simp
    qed
  qed
  have b: "\<forall>i<length ks. ks ! i \<notin> set (take i ks) \<longrightarrow>
              vs ! i = floor + int (card (set (take i ks)))"
  proof (intro allI impI)
    fix i assume i: "i < length ks" and new: "ks ! i \<notin> set (take i ks)"
    obtain vs1 m1 where r1: "mapper_gets (IdMapper_from floor) (take i ks) = (vs1, m1)"
      by (cases "mapper_gets (IdMapper_from floor) (take i ks)")
    obtain vs2 m2 where r2: "mapper_gets m1 (drop i ks) = (vs2, m2)"
      by (cases "mapper_gets m1 (drop i ks)")
    have split: "vs = vs1 @ vs2"
      using mapper_gets_append[of "IdMapper_from floor" "take i ks" "drop i ks"] assms r1 r2
      by simp
    note P1 = mapper_gets_props[OF mapper_inv_init r1]
    have l1: "length vs1 = i" using P1 i by simp
    have d1: "dom (id_map m1) = set (take i ks)" using P1 by (simp add: IdMapper_from_def)
    have c1: "id_cnt m1 = floor + int (card (set (take i ks)))"
      using P1 d1 by (simp add: mapper_inv_def)
    have dr: "drop i ks = ks ! i # drop (Suc i) ks" using i by (simp add: Cons_nth_drop_Suc)
    have none: "id_map m1 (ks ! i) = None" using new d1 by (auto simp: domIff)
    have "vs2 ! 0 = id_cnt m1"
      using r2 none unfolding dr by (auto simp: mapper_get_def split: prod.splits)
    then show "vs ! i = floor + int (card (set (take i ks)))"
      using split l1 c1 by (simp add: nth_append)
  qed
  show ?thesis using len a b by blast
qed


theorem idmapper_get_injective_stable_next_witness:
  "fst (mapper_gets (IdMapper_from 5) [''u1'', ''u2'', ''u1'', ''u3'']) = [5, 6, 5, 7] \<and>
   length (fst (mapper_gets (IdMapper_from 5) [''u1'', ''u2'', ''u1'', ''u3''])) = 4 \<and>
   fst (mapper_gets IdMapper [''u1'', ''u2'', ''u1'']) = [0, 1, 0]"
proof -
  let ?ks = "[''u1'', ''u2'', ''u1'', ''u3'']"
  let ?r = "mapper_gets (IdMapper_from 5) ?ks"
  have run: "?r = (fst ?r, snd ?r)" by simp
  have len: "length (fst ?r) = length ?ks"
    using idmapper_get_injective_stable_next[OF run] by blast
  have a: "fst ?r = [5, 6, 5, 7]"
    by (simp add: IdMapper_from_def mapper_get_def)
  have b: "fst (mapper_gets IdMapper [''u1'', ''u2'', ''u1'']) = [0, 1, 0]"
    by (simp add: IdMapper_def IdMapper_from_def mapper_get_def)
  show ?thesis using len a b by simp
qed

subsection \<open>The channel classifier\<close>

lemma index_of_simps:
  "index_of maps Discussion = cm_dsc maps"
  "index_of maps Direct = cm_direct maps"
  "index_of maps Room = cm_room maps"
  by (simp_all add: index_of_def)

lemma categorize_Cons:
  "categorize_channels_and_map_with_id (c # rest) maps = Inr maps' \<Longrightarrow>
   categorize_channels_and_map_with_id rest (categorize_step c maps) = Inr maps' \<and>
   (spec_category c = Room \<and> ch_teamMain c = Some True \<longrightarrow> ch_teamId c \<noteq> None)"
  by (auto simp: categorize_step_def spec_category_def field_def Let_def
           split: if_splits option.splits)

lemma categorize_step_index:
  "index_of (categorize_step c maps) cat =
     (if cat = spec_category c then (index_of maps cat)(ch_id c \<mapsto> c) else index_of maps cat)"
  by (cases cat; cases "spec_category c") (auto simp: categorize_step_def index_of_def)

lemma categorize_step_team:
  "cm_team (categorize_step c maps) =
     (if spec_category c = Room \<and> ch_teamMain c = Some True
      then (cm_team maps)(the (ch_teamId c) \<mapsto> c) else cm_team maps)"
  by (cases "spec_category c") (auto simp: categorize_step_def)

lemma categorize_wf:
  "categorize_channels_and_map_with_id data maps = Inr maps' \<Longrightarrow> maps_wf S maps \<Longrightarrow>
   maps_wf (S \<union> set data) maps'"
proof (induction data arbitrary: maps S)
  case Nil
  then show ?case by simp
next
  case (Cons c rest)
  note st = categorize_Cons[OF Cons.prems(1)]
  have "maps_wf (insert c S) (categorize_step c maps)"
    using Cons.prems(2) st unfolding maps_wf_def categorize_step_index categorize_step_team
    by (auto split: if_splits)
  from Cons.IH[OF conjunct1[OF st] this] show ?case by simp
qed

lemma categorize_other_keys:
  "categorize_channels_and_map_with_id data maps = Inr maps' \<Longrightarrow> k \<notin> ch_id ` set data \<Longrightarrow>
   index_of maps' cat k = index_of maps cat k"
proof (induction data arbitrary: maps)
  case Nil
  then show ?case by simp
next
  case (Cons c rest)
  note st = categorize_Cons[OF Cons.prems(1)]
  have "index_of maps' cat k = index_of (categorize_step c maps) cat k"
    using Cons.IH[OF conjunct1[OF st]] Cons.prems(2) by simp
  then show ?case using Cons.prems(2) by (simp add: categorize_step_index)
qed

lemma categorize_team_grows:
  "categorize_channels_and_map_with_id data maps = Inr maps' \<Longrightarrow> cm_team maps k \<noteq> None \<Longrightarrow>
   cm_team maps' k \<noteq> None"
proof (induction data arbitrary: maps)
  case Nil
  then show ?case by simp
next
  case (Cons c rest)
  note st = categorize_Cons[OF Cons.prems(1)]
  have "cm_team (categorize_step c maps) k \<noteq> None"
    using Cons.prems(2) by (simp add: categorize_step_team)
  from Cons.IH[OF conjunct1[OF st] this] show ?case .
qed

lemma categorize_files_each:
  "categorize_channels_and_map_with_id data maps = Inr maps' \<Longrightarrow> distinct (map ch_id data) \<Longrightarrow>
   c \<in> set data \<Longrightarrow>
   index_of maps' (spec_category c) (ch_id c) = Some c \<and>
   (\<forall>cat. cat \<noteq> spec_category c \<longrightarrow> index_of maps' cat (ch_id c) = index_of maps cat (ch_id c)) \<and>
   (spec_category c = Room \<and> ch_teamMain c = Some True \<longrightarrow>
      (\<exists>tid. ch_teamId c = Some tid \<and> cm_team maps' tid \<noteq> None))"
proof (induction data arbitrary: maps)
  case Nil
  then show ?case by simp
next
  case (Cons d rest)
  note st = categorize_Cons[OF Cons.prems(1)]
  note run = conjunct1[OF st]
  show ?case
  proof (cases "c = d")
    case True
    have notin: "ch_id c \<notin> ch_id ` set rest" using Cons.prems(2) True by auto
    have a: "\<And>cat. index_of maps' cat (ch_id c) = index_of (categorize_step c maps) cat (ch_id c)"
      using categorize_other_keys[OF run notin] True by simp
    have t: "spec_category c = Room \<and> ch_teamMain c = Some True \<longrightarrow>
      (\<exists>tid. ch_teamId c = Some tid \<and> cm_team maps' tid \<noteq> None)"
    proof
      assume h: "spec_category c = Room \<and> ch_teamMain c = Some True"
      then obtain tid where tid: "ch_teamId c = Some tid" using st True by auto
      have "cm_team (categorize_step d maps) tid \<noteq> None"
        using h tid True by (simp add: categorize_step_team)
      from categorize_team_grows[OF run this] tid
      show "\<exists>tid. ch_teamId c = Some tid \<and> cm_team maps' tid \<noteq> None" by blast
    qed
    show ?thesis using a t by (simp add: categorize_step_index)
  next
    case False
    then have c: "c \<in> set rest" using Cons.prems(3) by simp
    have d: "distinct (map ch_id rest)" using Cons.prems(2) by simp
    have "ch_id d \<notin> ch_id ` set rest" using Cons.prems(2) by simp
    then have ne: "ch_id c \<noteq> ch_id d" using c by (metis imageI)
    note IH = Cons.IH[OF run d c]
    show ?thesis using IH ne by (simp add: categorize_step_index)
  qed
qed

lemma categorize_Cons_eq:
  "categorize_channels_and_map_with_id (c # rest) maps =
     (if lacks_team_id c then Inl KeyError
      else categorize_channels_and_map_with_id rest (categorize_step c maps))"
  by (cases "ch_teamId c")
     (auto simp: lacks_team_id_def categorize_step_def spec_category_def field_def Let_def)

lemma categorize_isl:
  "isl (categorize_channels_and_map_with_id data maps) = (\<exists>c\<in>set data. lacks_team_id c)"
proof (induction data arbitrary: maps)
  case Nil
  then show ?case by simp
next
  case (Cons c rest)
  show ?case unfolding categorize_Cons_eq using Cons.IH by simp
qed

lemma categorize_append:
  "categorize_channels_and_map_with_id (xs @ ys) maps =
     (case categorize_channels_and_map_with_id xs maps of
        Inl e \<Rightarrow> Inl e
      | Inr m \<Rightarrow> categorize_channels_and_map_with_id ys m)"
proof (induction xs arbitrary: maps)
  case Nil
  then show ?case by simp
next
  case (Cons c xs)
  have "categorize_channels_and_map_with_id ((c # xs) @ ys) maps =
        (if lacks_team_id c then Inl KeyError
         else categorize_channels_and_map_with_id (xs @ ys) (categorize_step c maps))"
    using categorize_Cons_eq[of c "xs @ ys" maps] by simp
  then show ?case unfolding categorize_Cons_eq[of c xs maps] using Cons.IH by simp
qed

lemma categorize_in_turn:
  assumes "categorize_channels_and_map_with_id (xs @ c # ys) maps = Inr maps'"
  shows "\<exists>m0 m1. categorize_channels_and_map_with_id xs maps = Inr m0 \<and>
           categorize_channels_and_map_with_id (xs @ [c]) maps = Inr m1 \<and>
           categorize_channels_and_map_with_id ys m1 = Inr maps' \<and>
           (\<forall>cat. index_of m1 cat =
              (if cat = spec_category c then (index_of m0 cat)(ch_id c \<mapsto> c) else index_of m0 cat)) \<and>
           cm_team m1 =
              (if spec_category c = Room \<and> ch_teamMain c = Some True
               then (cm_team m0)(the (ch_teamId c) \<mapsto> c) else cm_team m0)"
proof -
  from assms obtain m0 where m0: "categorize_channels_and_map_with_id xs maps = Inr m0"
    and rest: "categorize_channels_and_map_with_id (c # ys) m0 = Inr maps'"
    by (auto simp: categorize_append split: sum.splits)
  note st = categorize_Cons[OF rest]
  have "\<not> isl (categorize_channels_and_map_with_id (c # ys) m0)" using rest by simp
  then have ok: "\<not> lacks_team_id c" unfolding categorize_isl by simp
  then have one: "categorize_channels_and_map_with_id [c] m0 = Inr (categorize_step c m0)"
    unfolding categorize_Cons_eq by simp
  have m1: "categorize_channels_and_map_with_id (xs @ [c]) maps = Inr (categorize_step c m0)"
    using m0 one by (simp add: categorize_append)
  show ?thesis
    using m0 m1 conjunct1[OF st] categorize_step_index[of c m0] categorize_step_team[of c m0]
    by blast
qed

lemma categorize_indexes:
  assumes "categorize_channels_and_map_with_id channel_data empty_maps = Inr maps"
  shows "maps_wf (set channel_data) maps \<and>
         (\<forall>c k k' cat cat'. index_of maps cat k = Some c \<and> index_of maps cat' k' = Some c
              \<longrightarrow> cat = cat' \<and> k = k') \<and>
         (distinct (map ch_id channel_data) \<longrightarrow>
            (\<forall>c\<in>set channel_data.
               index_of maps (spec_category c) (ch_id c) = Some c \<and>
               (\<forall>cat. cat \<noteq> spec_category c \<longrightarrow> index_of maps cat (ch_id c) = None) \<and>
               (spec_category c = Room \<and> ch_teamMain c = Some True \<longrightarrow>
                  (\<exists>tid. ch_teamId c = Some tid \<and> cm_team maps tid \<noteq> None))))"
proof -
  have wf0: "maps_wf {} empty_maps"
    by (simp add: maps_wf_def empty_maps_def index_of_def split: category.splits)
  have wf: "maps_wf (set channel_data) maps"
    using categorize_wf[OF assms wf0] by simp
  have one: "\<forall>c k k' cat cat'. index_of maps cat k = Some c \<and> index_of maps cat' k' = Some c
              \<longrightarrow> cat = cat' \<and> k = k'"
    using wf unfolding maps_wf_def by blast
  have e: "\<And>cat k. index_of empty_maps cat k = None"
    by (simp add: empty_maps_def index_of_def split: category.splits)
  have each: "distinct (map ch_id channel_data) \<longrightarrow>
            (\<forall>c\<in>set channel_data.
               index_of maps (spec_category c) (ch_id c) = Some c \<and>
               (\<forall>cat. cat \<noteq> spec_category c \<longrightarrow> index_of maps cat (ch_id c) = None) \<and>
               (spec_category c = Room \<and> ch_teamMain c = Some True \<longrightarrow>
                  (\<exists>tid. ch_teamId c = Some tid \<and> cm_team maps tid \<noteq> None)))"
  proof (intro impI ballI)
    fix c assume d: "distinct (map ch_id channel_data)" and c: "c \<in> set channel_data"
    from categorize_files_each[OF assms d c] e
    show "index_of maps (spec_category c) (ch_id c) = Some c \<and>
               (\<forall>cat. cat \<noteq> spec_category c \<longrightarrow> index_of maps cat (ch_id c) = None) \<and>
               (spec_category c = Room \<and> ch_teamMain c = Some True \<longrightarrow>
                  (\<exists>tid. ch_teamId c = Some tid \<and> cm_team maps tid \<noteq> None))"
      by simp
  qed
  show ?thesis using wf one each by blast
qed


text \<open>
  C8. The classifier ends with a \<^verbatim>\<open>KeyError\<close> exactly when some record is a room
  flagged as a team's main channel that has no team id; otherwise it returns the four
  indexes. Each record, when its turn comes, is put into the index of its category and
  into no other of the discussion, direct and room indexes, the category being
  discussion if it carries a parent-channel reference, else direct if its type tag is
  \<open>d\<close>, else room; a room flagged as a team's main channel is put into the team index
  as well, under its team id, and no other record is. In the indexes returned, every
  entry of the discussion, direct and room index is a record of the input of exactly
  that category, filed under its own id, so no record is in two of them. When the
  records' ids are distinct, as the \<^verbatim>\<open>_id\<close> of an export are, each record is in the
  index of its category in the end and in no other of the three.
\<close>

theorem categorize_exactly_one_index:
  "isl (categorize_channels_and_map_with_id channel_data empty_maps) =
     (\<exists>c\<in>set channel_data. lacks_team_id c) \<and>
   (\<forall>maps. categorize_channels_and_map_with_id channel_data empty_maps = Inr maps \<longrightarrow>
      (\<forall>xs c ys. channel_data = xs @ c # ys \<longrightarrow>
         (\<exists>m0 m1. categorize_channels_and_map_with_id xs empty_maps = Inr m0 \<and>
            categorize_channels_and_map_with_id (xs @ [c]) empty_maps = Inr m1 \<and>
            (\<forall>cat. index_of m1 cat =
               (if cat = spec_category c then (index_of m0 cat)(ch_id c \<mapsto> c)
                else index_of m0 cat)) \<and>
            cm_team m1 =
               (if spec_category c = Room \<and> ch_teamMain c = Some True
                then (cm_team m0)(the (ch_teamId c) \<mapsto> c) else cm_team m0))) \<and>
      maps_wf (set channel_data) maps \<and>
      (\<forall>c k k' cat cat'. index_of maps cat k = Some c \<and> index_of maps cat' k' = Some c
           \<longrightarrow> cat = cat' \<and> k = k') \<and>
      (distinct (map ch_id channel_data) \<longrightarrow>
         (\<forall>c\<in>set channel_data.
            index_of maps (spec_category c) (ch_id c) = Some c \<and>
            (\<forall>cat. cat \<noteq> spec_category c \<longrightarrow> index_of maps cat (ch_id c) = None) \<and>
            (spec_category c = Room \<and> ch_teamMain c = Some True \<longrightarrow>
               (\<exists>tid. ch_teamId c = Some tid \<and> cm_team maps tid \<noteq> None)))))"
proof -
  have a: "isl (categorize_channels_and_map_with_id channel_data empty_maps) =
     (\<exists>c\<in>set channel_data. lacks_team_id c)"
    by (rule categorize_isl)
  have b: "\<forall>maps. categorize_channels_and_map_with_id channel_data empty_maps = Inr maps \<longrightarrow>
      (\<forall>xs c ys. channel_data = xs @ c # ys \<longrightarrow>
         (\<exists>m0 m1. categorize_channels_and_map_with_id xs empty_maps = Inr m0 \<and>
            categorize_channels_and_map_with_id (xs @ [c]) empty_maps = Inr m1 \<and>
            (\<forall>cat. index_of m1 cat =
               (if cat = spec_category c then (index_of m0 cat)(ch_id c \<mapsto> c)
                else index_of m0 cat)) \<and>
            cm_team m1 =
               (if spec_category c = Room \<and> ch_teamMain c = Some True
                then (cm_team m0)(the (ch_teamId c) \<mapsto> c) else cm_team m0))) \<and>
      maps_wf (set channel_data) maps \<and>
      (\<forall>c k k' cat cat'. index_of maps cat k = Some c \<and> index_of maps cat' k' = Some c
           \<longrightarrow> cat = cat' \<and> k = k') \<and>
      (distinct (map ch_id channel_data) \<longrightarrow>
         (\<forall>c\<in>set channel_data.
            index_of maps (spec_category c) (ch_id c) = Some c \<and>
            (\<forall>cat. cat \<noteq> spec_category c \<longrightarrow> index_of maps cat (ch_id c) = None) \<and>
            (spec_category c = Room \<and> ch_teamMain c = Some True \<longrightarrow>
               (\<exists>tid. ch_teamId c = Some tid \<and> cm_team maps tid \<noteq> None))))"
  proof (intro allI impI)
    fix maps
    assume run: "categorize_channels_and_map_with_id channel_data empty_maps = Inr maps"
    have turn: "\<forall>xs c ys. channel_data = xs @ c # ys \<longrightarrow>
         (\<exists>m0 m1. categorize_channels_and_map_with_id xs empty_maps = Inr m0 \<and>
            categorize_channels_and_map_with_id (xs @ [c]) empty_maps = Inr m1 \<and>
            (\<forall>cat. index_of m1 cat =
               (if cat = spec_category c then (index_of m0 cat)(ch_id c \<mapsto> c)
                else index_of m0 cat)) \<and>
            cm_team m1 =
               (if spec_category c = Room \<and> ch_teamMain c = Some True
                then (cm_team m0)(the (ch_teamId c) \<mapsto> c) else cm_team m0))"
    proof (intro allI impI)
      fix xs c ys
      assume sp: "channel_data = xs @ c # ys"
      from categorize_in_turn[OF run[unfolded sp]]
      show "\<exists>m0 m1. categorize_channels_and_map_with_id xs empty_maps = Inr m0 \<and>
            categorize_channels_and_map_with_id (xs @ [c]) empty_maps = Inr m1 \<and>
            (\<forall>cat. index_of m1 cat =
               (if cat = spec_category c then (index_of m0 cat)(ch_id c \<mapsto> c)
                else index_of m0 cat)) \<and>
            cm_team m1 =
               (if spec_category c = Room \<and> ch_teamMain c = Some True
                then (cm_team m0)(the (ch_teamId c) \<mapsto> c) else cm_team m0)"
        by blast
    qed
    note I = categorize_indexes[OF run]
    show "(\<forall>xs c ys. channel_data = xs @ c # ys \<longrightarrow>
         (\<exists>m0 m1. categorize_channels_and_map_with_id xs empty_maps = Inr m0 \<and>
            categorize_channels_and_map_with_id (xs @ [c]) empty_maps = Inr m1 \<and>
            (\<forall>cat. index_of m1 cat =
               (if cat = spec_category c then (index_of m0 cat)(ch_id c \<mapsto> c)
                else index_of m0 cat)) \<and>
            cm_team m1 =
               (if spec_category c = Room \<and> ch_teamMain c = Some True
                then (cm_team m0)(the (ch_teamId c) \<mapsto> c) else cm_team m0))) \<and>
      maps_wf (set channel_data) maps \<and>
      (\<forall>c k k' cat cat'. index_of maps cat k = Some c \<and> index_of maps cat' k' = Some c
           \<longrightarrow> cat = cat' \<and> k = k') \<and>
      (distinct (map ch_id channel_data) \<longrightarrow>
         (\<forall>c\<in>set channel_data.
            index_of maps (spec_category c) (ch_id c) = Some c \<and>
            (\<forall>cat. cat \<noteq> spec_category c \<longrightarrow> index_of maps cat (ch_id c) = None) \<and>
            (spec_category c = Room \<and> ch_teamMain c = Some True \<longrightarrow>
               (\<exists>tid. ch_teamId c = Some tid \<and> cm_team maps tid \<noteq> None))))"
      by (rule conjI[OF turn I])
  qed
  show ?thesis by (rule conjI[OF a b])
qed

lemma example_categorized:
  "categorize_channels_and_map_with_id example_channels empty_maps = Inr example_maps"
  by (simp add: example_channels_def example_room_def example_discussion_def example_direct_def
        example_plain_room_def example_maps_def empty_maps_def truthy_def field_def)

lemma example_channels_distinct: "distinct (map ch_id example_channels)"
  by (simp add: example_channels_def example_room_def example_discussion_def example_direct_def
        example_plain_room_def)

theorem categorize_exactly_one_index_witness:
  "categorize_channels_and_map_with_id example_channels empty_maps = Inr example_maps \<and>
   distinct (map ch_id example_channels) \<and>
   spec_category example_discussion = Discussion \<and> spec_category example_direct = Direct \<and>
   spec_category example_room = Room \<and> spec_category example_plain_room = Room \<and>
   index_of example_maps Room (ch_id example_plain_room) = Some example_plain_room \<and>
   index_of example_maps Direct (ch_id example_plain_room) = None \<and>
   index_of example_maps Discussion (ch_id example_plain_room) = None \<and>
   cm_room example_maps = [''R1'' \<mapsto> example_room, ''R2'' \<mapsto> example_plain_room] \<and>
   cm_team example_maps = [''T1'' \<mapsto> example_room] \<and>
   cm_dsc example_maps = [''D1'' \<mapsto> example_discussion] \<and>
   cm_direct example_maps = [''AB'' \<mapsto> example_direct] \<and>
   isl (categorize_channels_and_map_with_id
          [example_plain_room, example_room\<lparr>ch_teamId := None\<rparr>] empty_maps)"
proof -
  have c: "spec_category example_discussion = Discussion \<and>
           spec_category example_direct = Direct \<and> spec_category example_room = Room \<and>
           spec_category example_plain_room = Room"
    by (simp add: spec_category_def truthy_def example_room_def example_discussion_def
          example_direct_def example_plain_room_def)
  note T = categorize_exactly_one_index[where channel_data = example_channels]
  have mem: "example_plain_room \<in> set example_channels" by (simp add: example_channels_def)
  from T example_categorized example_channels_distinct mem
  have p: "index_of example_maps (spec_category example_plain_room) (ch_id example_plain_room)
             = Some example_plain_room \<and>
           (\<forall>cat. cat \<noteq> spec_category example_plain_room \<longrightarrow>
              index_of example_maps cat (ch_id example_plain_room) = None)"
    by blast
  have p1: "index_of example_maps Room (ch_id example_plain_room) = Some example_plain_room"
    and p2: "index_of example_maps Direct (ch_id example_plain_room) = None"
    and p3: "index_of example_maps Discussion (ch_id example_plain_room) = None"
    using p c by simp_all
  have m: "cm_room example_maps = [''R1'' \<mapsto> example_room, ''R2'' \<mapsto> example_plain_room]"
    "cm_team example_maps = [''T1'' \<mapsto> example_room]"
    "cm_dsc example_maps = [''D1'' \<mapsto> example_discussion]"
    "cm_direct example_maps = [''AB'' \<mapsto> example_direct]"
    by (simp_all add: example_maps_def)
  have "lacks_team_id (example_room\<lparr>ch_teamId := None\<rparr>)"
    by (simp add: lacks_team_id_def spec_category_def truthy_def example_room_def)
  then have f: "isl (categorize_channels_and_map_with_id
          [example_plain_room, example_room\<lparr>ch_teamId := None\<rparr>] empty_maps)"
    using categorize_exactly_one_index[where channel_data =
            "[example_plain_room, example_room\<lparr>ch_teamId := None\<rparr>]"]
    by simp
  show ?thesis
    using example_categorized example_channels_distinct c p1 p2 p3 m f by simp
qed
subsection \<open>Conversion of one message\<close>

lemma mapper_le_refl: "mapper_le m m"
  by (simp add: mapper_le_def)

lemma mapper_le_trans: "mapper_le a b \<Longrightarrow> mapper_le b c \<Longrightarrow> mapper_le a c"
  by (simp add: mapper_le_def)

lemma mapper_get_le: "mapper_get m k = (v, m') \<Longrightarrow> mapper_le m m'"
  unfolding mapper_le_def using mapper_get_keeps by blast

lemma reaction_users_le:
  "reaction_users un name usernames (acc, um) = Inr (acc', um') \<Longrightarrow> mapper_le um um'"
proof (induction usernames arbitrary: acc um)
  case Nil
  then show ?case by (simp add: mapper_le_refl)
next
  case (Cons u rest)
  from Cons.prems obtain rc v um1 where
    g: "mapper_get um rc = (v, um1)" and
    r: "reaction_users un name rest (acc @ [\<lparr>re_name = name, re_user_id = v\<rparr>], um1) = Inr (acc', um')"
    by (auto split: sum.splits prod.splits)
  show ?case using mapper_le_trans[OF mapper_get_le[OF g] Cons.IH[OF r]] .
qed

lemma list_reactions_loop_le:
  "list_reactions_loop un rs (acc, um) = Inr (acc', um') \<Longrightarrow> mapper_le um um'"
proof (induction rs arbitrary: acc um)
  case Nil
  then show ?case by (simp add: mapper_le_refl)
next
  case (Cons x rest)
  obtain code usernames where x: "x = (code, usernames)" by (cases x)
  from Cons.prems obtain name acc1 um1 where
    u: "reaction_users un name usernames (acc, um) = Inr (acc1, um1)" and
    r: "list_reactions_loop un rest (acc1, um1) = Inr (acc', um')"
    unfolding x by (auto split: sum.splits)
  show ?case using mapper_le_trans[OF reaction_users_le[OF u] Cons.IH[OF r]] .
qed

lemma reactions_step_le:
  "reactions_step un message um = Inr (rs, um') \<Longrightarrow> mapper_le um um'"
  by (auto simp: reactions_step_def list_reactions_def mapper_le_refl
      dest: list_reactions_loop_le split: option.splits if_splits)

lemma mention_loop_le: "mention_loop xs (acc, um) = (acc', um') \<Longrightarrow> mapper_le um um'"
proof (induction xs arbitrary: acc um)
  case Nil
  then show ?case by (simp add: mapper_le_refl)
next
  case (Cons x rest)
  show ?case
  proof (cases "x \<in> set [''all'', ''here'']")
    case True
    with Cons show ?thesis by simp
  next
    case False
    obtain v um1 where g: "mapper_get um x = (v, um1)" by (cases "mapper_get um x")
    with Cons.prems False obtain acc1 where "mention_loop rest (acc1, um1) = (acc', um')"
      by (auto split: if_splits)
    from mapper_le_trans[OF mapper_get_le[OF g] Cons.IH[OF this]] show ?thesis .
  qed
qed

lemma reaction_users_isl:
  "isl (reaction_users un name names acc) = (\<not> set names \<subseteq> dom un)"
proof (induction names arbitrary: acc)
  case Nil
  then show ?case by simp
next
  case (Cons u rest)
  obtain rl um where acc: "acc = (rl, um)" by (cases acc)
  show ?case
  proof (cases "un u")
    case None
    then show ?thesis unfolding acc by (auto simp: lookup_def)
  next
    case (Some rc)
    then show ?thesis unfolding acc using Cons.IH
      by (auto simp: lookup_def split: prod.splits)
  qed
qed

lemma list_reactions_loop_isl:
  "isl (list_reactions_loop un rs acc) =
     (\<not> (\<forall>(code, names)\<in>set rs. 1 < length (py_split (CHR '':'') code) \<and> set names \<subseteq> dom un))"
proof (induction rs arbitrary: acc)
  case Nil
  then show ?case by simp
next
  case (Cons x rest)
  obtain code names where x: "x = (code, names)" by (cases x)
  show ?case
  proof (cases "1 < length (py_split (CHR '':'') code)")
    case False
    then show ?thesis unfolding x by (simp add: index_def)
  next
    case True
    show ?thesis
    proof (cases "reaction_users un (py_split (CHR '':'') code ! 1) names acc")
      case (Inl e)
      then have "\<not> set names \<subseteq> dom un"
        using reaction_users_isl[of un "py_split (CHR '':'') code ! 1" names acc] by simp
      then show ?thesis unfolding x using True Inl by (simp add: index_def)
    next
      case (Inr acc1)
      then have "set names \<subseteq> dom un"
        using reaction_users_isl[of un "py_split (CHR '':'') code ! 1" names acc] by simp
      then show ?thesis unfolding x using True Inr Cons.IH[of acc1] by (simp add: index_def)
    qed
  qed
qed

lemma reactions_step_isl: "isl (reactions_step un message um) = (\<not> reactions_ok un message)"
proof (cases "m_reactions message")
  case None
  then show ?thesis by (simp add: reactions_step_def reactions_ok_def)
next
  case (Some rs)
  then show ?thesis
    using list_reactions_loop_isl[of un rs "([], um)"]
    by (cases "rs = []") (simp_all add: reactions_step_def reactions_ok_def list_reactions_def)
qed

text \<open>The steps of \<^verbatim>\<open>message_to_dict\<close>, in the order the code runs them.\<close>

lemma message_to_dict_eq:
  "message_to_dict is_pm un u2r s2r direct dsc message ms =
     (case reactions_step un message (snd (mapper_get (user_id_mapper ms) (m_u_id message))) of
        Inl e \<Rightarrow> Inl e
      | Inr (rs, um2) \<Rightarrow>
          (case recipient_and_topic is_pm u2r s2r direct dsc message
                  (ms\<lparr>user_id_mapper := um2\<rparr>) of
             Inl e \<Rightarrow> Inl e
           | Inr ((r, topic), ms1) \<Rightarrow>
               Inr (\<lparr>sender_id = fst (mapper_get (user_id_mapper ms) (m_u_id message)),
                     content = m_msg message, date_sent = m_ts message, reactions = rs,
                     recipient_id = r, topic_name = topic,
                     mention_user_ids =
                       fst (mention_loop (case m_mentions message of None \<Rightarrow> [] | Some xs \<Rightarrow> xs)
                              ({}, user_id_mapper ms1))\<rparr>,
                    ms1\<lparr>user_id_mapper :=
                          snd (mention_loop
                                 (case m_mentions message of None \<Rightarrow> [] | Some xs \<Rightarrow> xs)
                                 ({}, user_id_mapper ms1))\<rparr>)))"
proof -
  obtain sid um1 where g: "mapper_get (user_id_mapper ms) (m_u_id message) = (sid, um1)"
    by (cases "mapper_get (user_id_mapper ms) (m_u_id message)")
  have fold: "(case m_reactions message of
                 None \<Rightarrow> Inr ([], um1)
               | Some rs \<Rightarrow> if rs = [] then Inr ([], um1)
                            else list_reactions un rs um1) = reactions_step un message um1"
    by (simp add: reactions_step_def)
  show ?thesis
    unfolding message_to_dict_def Let_def g prod.case snd_conv fst_conv fold
    by (cases "reactions_step un message um1") (auto split: sum.split prod.split)
qed

lemma message_to_dict_steps:
  assumes "message_to_dict is_pm un u2r s2r direct dsc message ms = Inr (d, ms')"
  obtains um1 rs um2 r topic ms1 mids um3 where
    "mapper_get (user_id_mapper ms) (m_u_id message) = (sender_id d, um1)"
    "reactions_step un message um1 = Inr (rs, um2)"
    "recipient_and_topic is_pm u2r s2r direct dsc message (ms\<lparr>user_id_mapper := um2\<rparr>)
       = Inr ((r, topic), ms1)"
    "mention_loop (case m_mentions message of None \<Rightarrow> [] | Some xs \<Rightarrow> xs)
       ({}, user_id_mapper ms1) = (mids, um3)"
    "d = \<lparr>sender_id = sender_id d, content = m_msg message, date_sent = m_ts message,
          reactions = rs, recipient_id = r, topic_name = topic, mention_user_ids = mids\<rparr>"
    "ms' = ms1\<lparr>user_id_mapper := um3\<rparr>"
  using assms unfolding message_to_dict_def reactions_step_def Let_def
  by (auto split: prod.splits sum.splits)

lemma recipient_and_topic_direct_total:
  assumes "m_rid message = Some rid" and "direct rid = Some ch" and "ch_uids ch = Some [A, B]"
    and "id_map (user_id_mapper ms) A = Some a" and "id_map (user_id_mapper ms) B = Some b"
    and "u2r a = Some ra" and "u2r b = Some rb"
  shows "recipient_and_topic True u2r s2r direct dsc message ms =
           Inr ((if m_u_id message = A then rb else ra, []), ms)"
  using assms
  by (simp add: recipient_and_topic_def field_def lookup_def index_def mapper_get_seen)

lemma recipient_and_topic_discussion_total:
  assumes "m_rid message = Some rid" and "dsc rid = Some ch"
    and "ch_prid ch = Some X" and "ch_fname ch = Some T"
    and "id_map (stream_id_mapper ms) X = Some s" and "s2r s = Some r"
  shows "recipient_and_topic False u2r s2r direct dsc message ms =
           Inr ((r, ''(Discussion) '' @ T), ms)"
  using assms
  by (simp add: recipient_and_topic_def field_def lookup_def mapper_get_seen)

lemma separate_single:
  "separate_channel_and_private_messages [message] direct ([], []) =
     (if \<not> truthy (m_rid message) then ([], [])
      else if the (m_rid message) \<in> dom direct then ([], [message]) else ([message], []))"
  by simp

text \<open>
  What \<^verbatim>\<open>message_to_dict\<close> returns when the recipient and topic are known to come
  out of the three-way branch, whatever the sender, reactions and mentions are.
\<close>

lemma message_to_dict_total:
  assumes rt: "\<And>um2. mapper_le (user_id_mapper ms) um2 \<Longrightarrow>
      recipient_and_topic is_pm u2r s2r direct dsc message (ms\<lparr>user_id_mapper := um2\<rparr>) =
        Inr ((r, topic), ms\<lparr>user_id_mapper := um2\<rparr>)"
  shows "isl (message_to_dict is_pm un u2r s2r direct dsc message ms) =
           (\<not> reactions_ok un message) \<and>
         (\<forall>d ms'. message_to_dict is_pm un u2r s2r direct dsc message ms = Inr (d, ms') \<longrightarrow>
            recipient_id d = r \<and> topic_name d = topic \<and> content d = m_msg message \<and>
            date_sent d = m_ts message \<and> stream_id_mapper ms' = stream_id_mapper ms \<and>
            id_map (user_id_mapper ms') (m_u_id message) = Some (sender_id d))"
proof -
  obtain sid um1 where g: "mapper_get (user_id_mapper ms) (m_u_id message) = (sid, um1)"
    by (cases "mapper_get (user_id_mapper ms) (m_u_id message)")
  have le1: "mapper_le (user_id_mapper ms) um1" using mapper_get_le[OF g] .
  show ?thesis
  proof (cases "reactions_step un message um1")
    case (Inl e)
    then have "message_to_dict is_pm un u2r s2r direct dsc message ms = Inl e"
      unfolding message_to_dict_eq g by simp
    moreover have "\<not> reactions_ok un message"
      using reactions_step_isl[of un message um1] Inl by simp
    ultimately show ?thesis by simp
  next
    case (Inr p)
    obtain rs um2 where p: "p = (rs, um2)" by (cases p)
    have rs: "reactions_step un message um1 = Inr (rs, um2)" using Inr p by simp
    have le2: "mapper_le um1 um2" using reactions_step_le[OF rs] .
    have le: "mapper_le (user_id_mapper ms) um2" using mapper_le_trans[OF le1 le2] .
    let ?ml = "mention_loop (case m_mentions message of None \<Rightarrow> [] | Some xs \<Rightarrow> xs) ({}, um2)"
    have res: "message_to_dict is_pm un u2r s2r direct dsc message ms =
      Inr (\<lparr>sender_id = sid, content = m_msg message, date_sent = m_ts message,
            reactions = rs, recipient_id = r, topic_name = topic,
            mention_user_ids = fst ?ml\<rparr>,
           ms\<lparr>user_id_mapper := snd ?ml\<rparr>)"
      unfolding message_to_dict_eq g using rs rt[OF le] by simp
    have "mapper_le um2 (snd ?ml)"
      using mention_loop_le[of _ "{}" um2 "fst ?ml" "snd ?ml"] by simp
    then have "mapper_le um1 (snd ?ml)" using le2 mapper_le_trans by blast
    then have sender: "id_map (snd ?ml) (m_u_id message) = Some sid"
      using mapper_get_records[OF g] unfolding mapper_le_def by blast
    have ok: "reactions_ok un message"
      using reactions_step_isl[of un message um1] rs by simp
    show ?thesis unfolding res using ok sender by simp
  qed
qed

text \<open>
  C2. Take a direct channel of the direct index with the member list \<open>[A, B]\<close>, both
  members being users the user id mapper knows and that have a personal recipient, and a
  message with the channel as its \<^verbatim>\<open>rid\<close>. The message goes to the private list
  (unless its \<^verbatim>\<open>rid\<close> is empty, when it is in neither list), so it is converted with
  \<^verbatim>\<open>is_pm_data\<close> set. \<^verbatim>\<open>message_to_dict\<close> then returns a record exactly when the
  reactions of the message can be read, and the record has the empty topic and, as its
  recipient id, the personal recipient of \<open>B\<close> when the sender is \<open>A\<close>, and the personal
  recipient of \<open>A\<close> when the sender is anyone else, \<open>B\<close> included.
\<close>

theorem direct_message_recipient:
  assumes "m_rid message = Some rid" and "direct rid = Some ch" and "ch_uids ch = Some [A, B]"
    and "id_map (user_id_mapper ms) A = Some a" and "id_map (user_id_mapper ms) B = Some b"
    and "u2r a = Some ra" and "u2r b = Some rb"
  shows "separate_channel_and_private_messages [message] direct ([], []) =
           (if rid = [] then ([], []) else ([], [message])) \<and>
         isl (message_to_dict True un u2r s2r direct dsc message ms) =
           (\<not> reactions_ok un message) \<and>
         (\<forall>d ms'. message_to_dict True un u2r s2r direct dsc message ms = Inr (d, ms') \<longrightarrow>
            recipient_id d = (if m_u_id message = A then rb else ra) \<and> topic_name d = [])"
proof -
  have sep: "separate_channel_and_private_messages [message] direct ([], []) =
           (if rid = [] then ([], []) else ([], [message]))"
    using assms(1,2) by (auto simp: truthy_def)
  have rt: "\<And>um2. mapper_le (user_id_mapper ms) um2 \<Longrightarrow>
      recipient_and_topic True u2r s2r direct dsc message (ms\<lparr>user_id_mapper := um2\<rparr>) =
        Inr ((if m_u_id message = A then rb else ra, []), ms\<lparr>user_id_mapper := um2\<rparr>)"
  proof -
    fix um2 assume le: "mapper_le (user_id_mapper ms) um2"
    have a: "id_map (user_id_mapper (ms\<lparr>user_id_mapper := um2\<rparr>)) A = Some a"
      and b: "id_map (user_id_mapper (ms\<lparr>user_id_mapper := um2\<rparr>)) B = Some b"
      using le assms(4,5) by (simp_all add: mapper_le_def)
    show "recipient_and_topic True u2r s2r direct dsc message (ms\<lparr>user_id_mapper := um2\<rparr>) =
        Inr ((if m_u_id message = A then rb else ra, []), ms\<lparr>user_id_mapper := um2\<rparr>)"
      by (rule recipient_and_topic_direct_total[where direct = direct and ?u2r = u2r
            and rid = rid and ch = ch and a = a and b = b,
            OF assms(1,2,3) a b assms(6,7)])
  qed
  note T = message_to_dict_total[of ms True u2r s2r direct dsc message _ "[]" un, OF rt]
  have i: "isl (message_to_dict True un u2r s2r direct dsc message ms) =
           (\<not> reactions_ok un message)"
    using T by blast
  have r: "\<forall>d ms'. message_to_dict True un u2r s2r direct dsc message ms = Inr (d, ms') \<longrightarrow>
            recipient_id d = (if m_u_id message = A then rb else ra) \<and> topic_name d = []"
    using T by blast
  show ?thesis by (intro conjI) (fact sep, fact i, fact r)
qed

lemma example_direct_from_A:
  "message_to_dict True example_usernames example_user_recipients example_stream_recipients
     (cm_direct example_maps) (cm_dsc example_maps)
     (example_reacted ''AB'' ''A'' ''hello'') example_mappers =
   Inr (\<lparr>sender_id = 0, content = ''hello'', date_sent = 1600000000,
         reactions = [\<lparr>re_name = ''smile'', re_user_id = 1\<rparr>],
         recipient_id = 101, topic_name = [], mention_user_ids = {}\<rparr>, example_mappers)"
  by (simp add: message_to_dict_def recipient_and_topic_def example_message_def
        example_reacted_def example_usernames_def list_reactions_def example_maps_def
        example_mappers_def example_user_recipients_def example_direct_def mapper_get_def
        field_def lookup_def index_def)

lemma example_direct_from_B:
  "message_to_dict True example_usernames example_user_recipients example_stream_recipients
     (cm_direct example_maps) (cm_dsc example_maps)
     (example_message ''AB'' ''B'' ''hello'') example_mappers =
   Inr (\<lparr>sender_id = 1, content = ''hello'', date_sent = 1600000000, reactions = [],
         recipient_id = 100, topic_name = [], mention_user_ids = {}\<rparr>, example_mappers)"
  by (simp add: message_to_dict_def recipient_and_topic_def example_message_def
        example_maps_def example_mappers_def example_user_recipients_def example_direct_def
        mapper_get_def field_def lookup_def index_def)

theorem direct_message_recipient_witness:
  "message_to_dict True example_usernames example_user_recipients example_stream_recipients
     (cm_direct example_maps) (cm_dsc example_maps)
     (example_reacted ''AB'' ''A'' ''hello'') example_mappers =
   Inr (\<lparr>sender_id = 0, content = ''hello'', date_sent = 1600000000,
         reactions = [\<lparr>re_name = ''smile'', re_user_id = 1\<rparr>],
         recipient_id = 101, topic_name = [], mention_user_ids = {}\<rparr>, example_mappers) \<and>
   message_to_dict True example_usernames example_user_recipients example_stream_recipients
     (cm_direct example_maps) (cm_dsc example_maps)
     (example_message ''AB'' ''B'' ''hello'') example_mappers =
   Inr (\<lparr>sender_id = 1, content = ''hello'', date_sent = 1600000000, reactions = [],
         recipient_id = 100, topic_name = [], mention_user_ids = {}\<rparr>, example_mappers) \<and>
   ch_uids example_direct = Some [''A'', ''B''] \<and>
   example_user_recipients 0 = Some 100 \<and> example_user_recipients 1 = Some 101 \<and>
   reactions_ok example_usernames (example_reacted ''AB'' ''A'' ''hello'') \<and>
   separate_channel_and_private_messages [example_reacted ''AB'' ''A'' ''hello'']
     (cm_direct example_maps) ([], []) = ([], [example_reacted ''AB'' ''A'' ''hello''])"
proof -
  let ?m = "example_reacted ''AB'' ''A'' ''hello''"
  have rid: "m_rid ?m = Some ''AB''" by (simp add: example_reacted_def example_message_def)
  have dir: "cm_direct example_maps ''AB'' = Some example_direct" by (simp add: example_maps_def)
  have uids: "ch_uids example_direct = Some [''A'', ''B'']" by (simp add: example_direct_def)
  have a: "id_map (user_id_mapper example_mappers) ''A'' = Some 0"
    and b: "id_map (user_id_mapper example_mappers) ''B'' = Some 1"
    by (simp_all add: example_mappers_def)
  have ra: "example_user_recipients 0 = Some 100" and rb: "example_user_recipients 1 = Some 101"
    by (simp_all add: example_user_recipients_def)
  note T = direct_message_recipient[where direct = "cm_direct example_maps"
      and ?u2r = example_user_recipients and rid = "''AB''" and ch = example_direct
      and a = 0 and b = 1 and un = example_usernames and ?s2r = example_stream_recipients
      and dsc = "cm_dsc example_maps", OF rid dir uids a b ra rb]
  have "\<not> isl (message_to_dict True example_usernames example_user_recipients
           example_stream_recipients (cm_direct example_maps) (cm_dsc example_maps) ?m
           example_mappers)"
    using example_direct_from_A by simp
  then have ok: "reactions_ok example_usernames ?m" using T by blast
  have sep: "separate_channel_and_private_messages [?m] (cm_direct example_maps) ([], []) =
               ([], [?m])"
    using T by simp
  show ?thesis
    using example_direct_from_A example_direct_from_B uids ra rb ok sep by simp
qed

lemma categorize_dsc_not_direct:
  assumes "categorize_channels_and_map_with_id channel_data empty_maps = Inr maps"
    and "distinct (map ch_id channel_data)" and "cm_dsc maps rid = Some ch"
  shows "cm_direct maps rid = None \<and> truthy (ch_prid ch)"
proof -
  have wf0: "maps_wf {} empty_maps"
    by (simp add: maps_wf_def empty_maps_def index_of_def split: category.splits)
  have wf: "maps_wf (set channel_data) maps"
    using categorize_wf[OF assms(1) wf0] by simp
  have "index_of maps Discussion rid = Some ch" using assms(3) by (simp add: index_of_simps)
  then have ch: "ch \<in> set channel_data" "ch_id ch = rid" "spec_category ch = Discussion"
    using wf unfolding maps_wf_def by blast+
  have "index_of maps Direct (ch_id ch) = index_of empty_maps Direct (ch_id ch)"
    using categorize_files_each[OF assms(1,2) ch(1)] ch(3) by simp
  then have "cm_direct maps rid = None"
    using ch(2) by (simp add: index_of_simps empty_maps_def)
  moreover have "truthy (ch_prid ch)"
    using ch(3) by (auto simp: spec_category_def split: if_splits)
  ultimately show ?thesis by simp
qed

text \<open>
  C3. Take the indexes the classifier builds from channel records with distinct ids, and
  a message whose \<^verbatim>\<open>rid\<close> is in the discussion index, for a discussion with title \<open>T\<close>
  whose parent channel \<open>X\<close> is a stream the stream id mapper knows and that has a
  recipient. The message goes to the channel list (unless its \<^verbatim>\<open>rid\<close> is empty, when
  it is in neither list), so it is converted with \<^verbatim>\<open>is_pm_data\<close> unset.
  \<^verbatim>\<open>message_to_dict\<close> then returns a record exactly when the reactions of the message
  can be read; the record has exactly the topic \<open>(Discussion) T\<close> and, as its recipient
  id, the stream recipient of \<open>X\<close>; and the stream id mapper is left as it was, so the
  discussion's own id gets no stream id.
\<close>

theorem discussion_message_topic_recipient:
  assumes "categorize_channels_and_map_with_id channel_data empty_maps = Inr maps"
    and "distinct (map ch_id channel_data)"
    and "m_rid message = Some rid" and "cm_dsc maps rid = Some ch"
    and "ch_prid ch = Some X" and "ch_fname ch = Some T"
    and "id_map (stream_id_mapper ms) X = Some s" and "s2r s = Some r"
  shows "separate_channel_and_private_messages [message] (cm_direct maps) ([], []) =
           (if rid = [] then ([], []) else ([message], [])) \<and>
         isl (message_to_dict False un u2r s2r (cm_direct maps) (cm_dsc maps) message ms) =
           (\<not> reactions_ok un message) \<and>
         (\<forall>d ms'. message_to_dict False un u2r s2r (cm_direct maps) (cm_dsc maps) message ms
                     = Inr (d, ms') \<longrightarrow>
            topic_name d = ''(Discussion) '' @ T \<and> recipient_id d = r \<and>
            stream_id_mapper ms' = stream_id_mapper ms)"
proof -
  have "cm_direct maps rid = None"
    using categorize_dsc_not_direct[OF assms(1,2,4)] by simp
  then have sep: "separate_channel_and_private_messages [message] (cm_direct maps) ([], []) =
           (if rid = [] then ([], []) else ([message], []))"
    using assms(3) by (auto simp: truthy_def domIff)
  have rt: "\<And>um2. mapper_le (user_id_mapper ms) um2 \<Longrightarrow>
      recipient_and_topic False u2r s2r (cm_direct maps) (cm_dsc maps) message
        (ms\<lparr>user_id_mapper := um2\<rparr>) =
        Inr ((r, ''(Discussion) '' @ T), ms\<lparr>user_id_mapper := um2\<rparr>)"
  proof -
    fix um2
    have x: "id_map (stream_id_mapper (ms\<lparr>user_id_mapper := um2\<rparr>)) X = Some s"
      using assms(7) by simp
    show "recipient_and_topic False u2r s2r (cm_direct maps) (cm_dsc maps) message
        (ms\<lparr>user_id_mapper := um2\<rparr>) =
        Inr ((r, ''(Discussion) '' @ T), ms\<lparr>user_id_mapper := um2\<rparr>)"
      by (rule recipient_and_topic_discussion_total[where dsc = "cm_dsc maps" and ?s2r = s2r
            and rid = rid and ch = ch and s = s, OF assms(3,4,5,6) x assms(8)])
  qed
  note R = message_to_dict_total[of ms False u2r s2r "cm_direct maps" "cm_dsc maps" message
      r "''(Discussion) '' @ T" un, OF rt]
  have i: "isl (message_to_dict False un u2r s2r (cm_direct maps) (cm_dsc maps) message ms) =
           (\<not> reactions_ok un message)"
    using R by blast
  have t: "\<forall>d ms'. message_to_dict False un u2r s2r (cm_direct maps) (cm_dsc maps) message ms
                     = Inr (d, ms') \<longrightarrow>
            topic_name d = ''(Discussion) '' @ T \<and> recipient_id d = r \<and>
            stream_id_mapper ms' = stream_id_mapper ms"
    using R by blast
  show ?thesis by (intro conjI) (fact sep, fact i, fact t)
qed

lemma example_discussion_from_A:
  "message_to_dict False example_usernames example_user_recipients example_stream_recipients
     (cm_direct example_maps) (cm_dsc example_maps)
     (example_reacted ''D1'' ''A'' ''hello'') example_mappers =
   Inr (\<lparr>sender_id = 0, content = ''hello'', date_sent = 1600000000,
         reactions = [\<lparr>re_name = ''smile'', re_user_id = 1\<rparr>],
         recipient_id = 200, topic_name = ''(Discussion) Bug Triage'',
         mention_user_ids = {}\<rparr>, example_mappers)"
  by (simp add: message_to_dict_def recipient_and_topic_def example_message_def
        example_reacted_def example_usernames_def list_reactions_def example_maps_def
        example_mappers_def example_stream_recipients_def example_discussion_def mapper_get_def
        field_def lookup_def index_def)

theorem discussion_message_topic_recipient_witness:
  "categorize_channels_and_map_with_id example_channels empty_maps = Inr example_maps \<and>
   distinct (map ch_id example_channels) \<and>
   ch_prid example_discussion = Some ''R1'' \<and> ch_fname example_discussion = Some ''Bug Triage'' \<and>
   example_stream_recipients 0 = Some 200 \<and>
   message_to_dict False example_usernames example_user_recipients example_stream_recipients
     (cm_direct example_maps) (cm_dsc example_maps)
     (example_reacted ''D1'' ''A'' ''hello'') example_mappers =
   Inr (\<lparr>sender_id = 0, content = ''hello'', date_sent = 1600000000,
         reactions = [\<lparr>re_name = ''smile'', re_user_id = 1\<rparr>],
         recipient_id = 200, topic_name = ''(Discussion) Bug Triage'',
         mention_user_ids = {}\<rparr>, example_mappers) \<and>
   reactions_ok example_usernames (example_reacted ''D1'' ''A'' ''hello'') \<and>
   separate_channel_and_private_messages [example_reacted ''D1'' ''A'' ''hello'']
     (cm_direct example_maps) ([], []) = ([example_reacted ''D1'' ''A'' ''hello''], [])"
proof -
  let ?m = "example_reacted ''D1'' ''A'' ''hello''"
  have rid: "m_rid ?m = Some ''D1''" by (simp add: example_reacted_def example_message_def)
  have dsc: "cm_dsc example_maps ''D1'' = Some example_discussion"
    by (simp add: example_maps_def)
  have prid: "ch_prid example_discussion = Some ''R1''" by (simp add: example_discussion_def)
  have fname: "ch_fname example_discussion = Some ''Bug Triage''"
    by (simp add: example_discussion_def)
  have x: "id_map (stream_id_mapper example_mappers) ''R1'' = Some 0"
    by (simp add: example_mappers_def)
  have r: "example_stream_recipients 0 = Some 200" by (simp add: example_stream_recipients_def)
  note T = discussion_message_topic_recipient[where maps = example_maps
      and ?s2r = example_stream_recipients and rid = "''D1''" and ch = example_discussion
      and s = 0 and un = example_usernames and ?u2r = example_user_recipients,
      OF example_categorized example_channels_distinct rid dsc prid fname x r]
  have "\<not> isl (message_to_dict False example_usernames example_user_recipients
           example_stream_recipients (cm_direct example_maps) (cm_dsc example_maps) ?m
           example_mappers)"
    using example_discussion_from_A by simp
  then have ok: "reactions_ok example_usernames ?m" using T by blast
  have sep: "separate_channel_and_private_messages [?m] (cm_direct example_maps) ([], []) =
               ([?m], [])"
    using T by simp
  show ?thesis
    using example_categorized example_channels_distinct prid fname r example_discussion_from_A
      ok sep by simp
qed

subsection \<open>Counters\<close>

lemma NEXT_ID_value: "fst (NEXT_ID sq name) = seq_value sq name"
  by (simp add: NEXT_ID_def)

lemma NEXT_ID_same: "seq_value (snd (NEXT_ID sq name)) name = seq_value sq name + 1"
  by (simp add: NEXT_ID_def seq_value_def)

lemma NEXT_ID_other: "name' \<noteq> name \<Longrightarrow> seq_value (snd (NEXT_ID sq name)) name' = seq_value sq name'"
  by (simp add: NEXT_ID_def seq_value_def)

lemma dump_counter_neq: "dump_counter realm_id \<noteq> ''message''" "dump_counter realm_id \<noteq> ''reaction''"
  by (simp_all add: dump_counter_def)

subsection \<open>The batch loop\<close>

lemma build_reactions_char:
  "build_reactions n2c rs mid (sq, tot) = (sq', tot') \<Longrightarrow>
   (\<exists>new. tot' = tot @ new \<and> (\<forall>z\<in>set new. zr_message z = mid)) \<and>
   (\<forall>name. name \<noteq> ''reaction'' \<longrightarrow> seq_value sq' name = seq_value sq name)"
proof (induction rs arbitrary: sq tot)
  case Nil
  then show ?case by simp
next
  case (Cons r rs)
  show ?case
  proof (cases "n2c (re_name r)")
    case None
    with Cons.prems have "build_reactions n2c rs mid (sq, tot) = (sq', tot')" by simp
    from Cons.IH[OF this] show ?thesis .
  next
    case (Some code)
    let ?z = "\<lparr>zr_id = seq_value sq ''reaction'', zr_emoji_code = code,
               zr_emoji_name = re_name r, zr_reaction_type = ''unicode_emoji'',
               zr_message = mid, zr_user_profile = re_user_id r\<rparr>"
    from Cons.prems Some
    have "build_reactions n2c rs mid (snd (NEXT_ID sq ''reaction''), tot @ [?z]) = (sq', tot')"
      by (simp add: NEXT_ID_def split: prod.splits)
    from Cons.IH[OF this] obtain new where
      n: "tot' = (tot @ [?z]) @ new" "\<forall>z\<in>set new. zr_message z = mid" and
      s: "\<forall>name. name \<noteq> ''reaction'' \<longrightarrow>
             seq_value sq' name = seq_value (snd (NEXT_ID sq ''reaction'')) name"
      by blast
    have "tot' = tot @ (?z # new) \<and> (\<forall>z\<in>set (?z # new). zr_message z = mid)"
      using n by simp
    moreover have "\<forall>name. name \<noteq> ''reaction'' \<longrightarrow> seq_value sq' name = seq_value sq name"
      using s by (simp add: NEXT_ID_other)
    ultimately show ?thesis by blast
  qed
qed

lemma emitted_ids_bounds: "z \<in> set (emitted it uh c rs) \<Longrightarrow> c \<le> zm_id z \<and> zm_id z < c + int (length rs)"
proof (induction rs arbitrary: c)
  case Nil
  then show ?case by simp
next
  case (Cons r rs)
  then show ?case
    by (fastforce simp: build_message_def split: sum.splits if_splits)
qed

lemma emitted_append:
  "emitted it uh c (xs @ ys) = emitted it uh c xs @ emitted it uh (c + int (length xs)) ys"
  by (induction xs arbitrary: c) (auto split: sum.splits simp: algebra_simps)

lemma logged_append: "logged it uh (xs @ ys) = logged it uh xs @ logged it uh ys"
  by (induction xs) (auto split: sum.splits)

text \<open>What a run of the loop that ends without an exception has done.\<close>

lemma raw_message_loop_char:
  "raw_message_loop it uh n2c raws (zm, st) = Inr (zm', st') \<Longrightarrow>
   zm' = zm @ emitted it uh (seq_value (cs_seq st) ''message'') raws \<and>
   (\<exists>new. cs_total_reactions st' = cs_total_reactions st @ new \<and>
      zr_message ` set new \<subseteq> zm_id ` set (emitted it uh (seq_value (cs_seq st) ''message'') raws)) \<and>
   seq_value (cs_seq st') ''message'' = seq_value (cs_seq st) ''message'' + int (length raws) \<and>
   (\<forall>name. name \<noteq> ''message'' \<and> name \<noteq> ''reaction'' \<longrightarrow>
      seq_value (cs_seq st') name = seq_value (cs_seq st) name) \<and>
   cs_files st' = cs_files st \<and>
   cs_log st' = cs_log st @ logged it uh raws \<and>
   (\<forall>r\<in>set raws. \<exists>body. rewritten it uh r = Inr body)"
proof (induction raws arbitrary: zm st)
  case Nil
  then show ?case by simp
next
  case (Cons r rs)
  let ?c = "seq_value (cs_seq st) ''message''"
  let ?sq1 = "snd (NEXT_ID (cs_seq st) ''message'')"
  from Cons.prems obtain body where body: "rewritten it uh r = Inr body"
    by (auto simp: rewritten_def NEXT_ID_def split: sum.splits)
  have c1: "seq_value ?sq1 ''message'' = ?c + 1" by (rule NEXT_ID_same)
  show ?case
  proof (cases "length body > 10000")
    case True
    let ?st1 = "st\<lparr>cs_seq := ?sq1, cs_log := cs_log st @ [length body]\<rparr>"
    from Cons.prems body True have run: "raw_message_loop it uh n2c rs (zm, ?st1) = Inr (zm', st')"
      by (simp add: rewritten_def NEXT_ID_def)
    note IH = Cons.IH[OF run]
    have o: "\<forall>name. name \<noteq> ''message'' \<and> name \<noteq> ''reaction'' \<longrightarrow>
        seq_value (cs_seq st') name = seq_value (cs_seq st) name"
      using IH by (simp add: NEXT_ID_other)
    show ?thesis using IH body True c1 o by (simp add: algebra_simps)
  next
    case False
    let ?m = "build_message body ?c (date_sent r) (recipient_id r) None (topic_name r)
                (sender_id r) False"
    obtain sq2 tot where br:
      "build_reactions n2c (reactions r) ?c (?sq1, cs_total_reactions st) = (sq2, tot)"
      by (cases "build_reactions n2c (reactions r) ?c (?sq1, cs_total_reactions st)")
    let ?st1 = "st\<lparr>cs_seq := sq2, cs_total_reactions := tot\<rparr>"
    from Cons.prems body False br
    have run: "raw_message_loop it uh n2c rs (zm @ [?m], ?st1) = Inr (zm', st')"
      by (simp add: rewritten_def NEXT_ID_def)
    note IH = Cons.IH[OF run]
    note B = build_reactions_char[OF br]
    have c2: "seq_value sq2 ''message'' = ?c + 1" using B c1 by simp
    have em: "emitted it uh ?c (r # rs) = ?m # emitted it uh (?c + 1) rs"
      using body False by simp
    from B obtain new1 where n1: "tot = cs_total_reactions st @ new1"
      "\<forall>z\<in>set new1. zr_message z = ?c" by blast
    from IH obtain new2 where n2: "cs_total_reactions st' = tot @ new2"
      "zr_message ` set new2 \<subseteq> zm_id ` set (emitted it uh (?c + 1) rs)"
      using c2 by auto
    have react: "\<exists>new. cs_total_reactions st' = cs_total_reactions st @ new \<and>
      zr_message ` set new \<subseteq> zm_id ` set (emitted it uh ?c (r # rs))"
    proof (intro exI conjI)
      show "cs_total_reactions st' = cs_total_reactions st @ (new1 @ new2)"
        using n1 n2 by simp
      have "zm_id ?m = ?c" by (simp add: build_message_def)
      then show "zr_message ` set (new1 @ new2) \<subseteq> zm_id ` set (emitted it uh ?c (r # rs))"
        using n1(2) n2(2) unfolding em by auto
    qed
    have o: "\<forall>name. name \<noteq> ''message'' \<and> name \<noteq> ''reaction'' \<longrightarrow>
        seq_value (cs_seq st') name = seq_value (cs_seq st) name"
      using IH B by (simp add: NEXT_ID_other)
    have zm': "zm' = zm @ emitted it uh ?c (r # rs)" using IH c2 em by simp
    have cnt: "seq_value (cs_seq st') ''message'' = ?c + int (length (r # rs))"
      using IH c2 by simp
    have lg: "cs_log st' = cs_log st @ logged it uh (r # rs)" using IH body False by simp
    have fl: "cs_files st' = cs_files st" using IH by simp
    have ok: "\<forall>r'\<in>set (r # rs). \<exists>body. rewritten it uh r' = Inr body" using IH body by simp
    show ?thesis using zm' react cnt o fl lg ok by blast
  qed
qed

lemma raw_message_loop_succeeds:
  "\<forall>r\<in>set raws. \<exists>body. rewritten it uh r = Inr body \<Longrightarrow>
   \<exists>res. raw_message_loop it uh n2c raws (zm, st) = Inr res"
proof (induction raws arbitrary: zm st)
  case Nil
  then show ?case by simp
next
  case (Cons r rs)
  then obtain body where body: "rewritten it uh r = Inr body" by auto
  have rest: "\<forall>r\<in>set rs. \<exists>body. rewritten it uh r = Inr body" using Cons.prems by simp
  show ?case
    using body Cons.IH[OF rest]
    by (auto simp: rewritten_def Let_def split: prod.splits)
qed
lemma emitted_single:
  "emitted it uh c [r] =
     (case rewritten it uh r of
        Inl e \<Rightarrow> []
      | Inr body \<Rightarrow>
          if kept it uh r
          then [build_message body c (date_sent r) (recipient_id r) None (topic_name r)
                  (sender_id r) False]
          else [])"
  by (auto simp: kept_def split: sum.splits)

lemma emitted_length: "length (emitted it uh c rs) = length (filter (kept it uh) rs)"
  by (induction rs arbitrary: c) (auto simp: kept_def split: sum.splits)

lemma emitted_ids:
  "map zm_id (emitted it uh c rs) =
     map (\<lambda>i. c + int i) (filter (\<lambda>i. kept it uh (rs ! i)) [0..<length rs])"
proof (induction rs rule: rev_induct)
  case Nil
  then show ?case by simp
next
  case (snoc r rs)
  have f: "filter (\<lambda>i. kept it uh ((rs @ [r]) ! i)) [0..<length rs] =
           filter (\<lambda>i. kept it uh (rs ! i)) [0..<length rs]"
    by (rule filter_cong) (auto simp: nth_append)
  have l: "map zm_id (emitted it uh (c + int (length rs)) [r]) =
           (if kept it uh r then [c + int (length rs)] else [])"
    by (auto simp: kept_def build_message_def split: sum.splits)
  show ?case
    using snoc.IH f l by (simp add: emitted_append)
qed

lemma emitted_ids_distinct: "distinct (map zm_id (emitted it uh c rs))"
proof -
  have "inj (\<lambda>i. c + int i)" by (simp add: inj_def)
  then have "inj_on (\<lambda>i. c + int i) (set (filter (\<lambda>i. kept it uh (rs ! i)) [0..<length rs]))"
    by (rule inj_on_subset) simp
  then show ?thesis by (simp add: emitted_ids distinct_map)
qed

lemma emitted_all_kept:
  "\<forall>r\<in>set rs. kept it uh r \<Longrightarrow>
   length (emitted it uh c rs) = length rs \<and>
   map zm_id (emitted it uh c rs) = map (\<lambda>i. c + int i) [0..<length rs]"
proof -
  assume a: "\<forall>r\<in>set rs. kept it uh r"
  then have "filter (kept it uh) rs = rs" by simp
  moreover have "filter (\<lambda>i. kept it uh (rs ! i)) [0..<length rs] = [0..<length rs]"
    using a by (auto simp: filter_id_conv)
  ultimately show ?thesis by (simp add: emitted_length emitted_ids)
qed

lemma not_too_long_kept: "rewritten it uh r = Inr body \<Longrightarrow> kept it uh r = (\<not> too_long it uh r)"
  by (auto simp: kept_def too_long_def)

text \<open>What a batch that ends without an exception has done.\<close>

lemma process_raw_message_batch_char:
  assumes "process_raw_message_batch realm_id raws sub it uh n2c st = Inr st'"
  shows "cs_files st' = cs_files st @
           [(message_file (seq_value (cs_seq st) (dump_counter realm_id)),
             \<lparr>mj_zerver_message = emitted it uh (seq_value (cs_seq st) ''message'') raws,
              mj_zerver_usermessage =
                make_user_messages (emitted it uh (seq_value (cs_seq st) ''message'') raws) sub\<rparr>)]"
    and "\<exists>new. cs_total_reactions st' = cs_total_reactions st @ new \<and>
           zr_message ` set new \<subseteq> zm_id ` set (emitted it uh (seq_value (cs_seq st) ''message'') raws)"
    and "seq_value (cs_seq st') ''message'' = seq_value (cs_seq st) ''message'' + int (length raws)"
    and "seq_value (cs_seq st') (dump_counter realm_id) =
           seq_value (cs_seq st) (dump_counter realm_id) + 1"
    and "cs_log st' = cs_log st @ logged it uh raws"
    and "\<forall>r\<in>set raws. \<exists>body. rewritten it uh r = Inr body"
proof -
  from assms obtain zm st1 where
    loop: "raw_message_loop it uh n2c raws ([], st) = Inr (zm, st1)"
    by (auto simp: process_raw_message_batch_def split: sum.splits)
  note L = raw_message_loop_char[OF loop]
  let ?d = "seq_value (cs_seq st1) (dump_counter realm_id)"
  have st': "st' = st1\<lparr>cs_seq := snd (NEXT_ID (cs_seq st1) (dump_counter realm_id)),
     cs_files := cs_files st1 @
       [(message_file ?d, \<lparr>mj_zerver_message = zm,
                            mj_zerver_usermessage = make_user_messages zm sub\<rparr>)]\<rparr>"
    using assms loop
    by (simp add: process_raw_message_batch_def dump_counter_def NEXT_ID_def Let_def)
  have d: "?d = seq_value (cs_seq st) (dump_counter realm_id)"
    using L dump_counter_neq by simp
  show "cs_files st' = cs_files st @
           [(message_file (seq_value (cs_seq st) (dump_counter realm_id)),
             \<lparr>mj_zerver_message = emitted it uh (seq_value (cs_seq st) ''message'') raws,
              mj_zerver_usermessage =
                make_user_messages (emitted it uh (seq_value (cs_seq st) ''message'') raws) sub\<rparr>)]"
    using L d unfolding st' by simp
  show "\<exists>new. cs_total_reactions st' = cs_total_reactions st @ new \<and>
           zr_message ` set new \<subseteq> zm_id ` set (emitted it uh (seq_value (cs_seq st) ''message'') raws)"
    using L unfolding st' by simp
  show "seq_value (cs_seq st') ''message'' = seq_value (cs_seq st) ''message'' + int (length raws)"
    using L dump_counter_neq(1)[of realm_id] unfolding st'
    by (simp add: NEXT_ID_other)
  show "seq_value (cs_seq st') (dump_counter realm_id) =
           seq_value (cs_seq st) (dump_counter realm_id) + 1"
    using d unfolding st' by (simp add: NEXT_ID_same)
  show "cs_log st' = cs_log st @ logged it uh raws" using L unfolding st' by simp
  show "\<forall>r\<in>set raws. \<exists>body. rewritten it uh r = Inr body" using L by blast
qed

lemma process_raw_message_batch_succeeds:
  "(\<exists>st'. process_raw_message_batch realm_id raws sub it uh n2c st = Inr st') =
   (\<forall>r\<in>set raws. \<exists>body. rewritten it uh r = Inr body)"
proof
  assume "\<exists>st'. process_raw_message_batch realm_id raws sub it uh n2c st = Inr st'"
  then obtain st' where "process_raw_message_batch realm_id raws sub it uh n2c st = Inr st'" ..
  from process_raw_message_batch_char(6)[OF this]
  show "\<forall>r\<in>set raws. \<exists>body. rewritten it uh r = Inr body" .
next
  assume "\<forall>r\<in>set raws. \<exists>body. rewritten it uh r = Inr body"
  from raw_message_loop_succeeds[OF this, of n2c "[]" st]
  obtain zm st1 where "raw_message_loop it uh n2c raws ([], st) = Inr (zm, st1)" by auto
  then show "\<exists>st'. process_raw_message_batch realm_id raws sub it uh n2c st = Inr st'"
    by (simp add: process_raw_message_batch_def Let_def split: prod.splits)
qed

subsection \<open>Messages over the length ceiling\<close>

lemma py_replace_absent: "old \<noteq> [] \<Longrightarrow> hd old \<notin> set s \<Longrightarrow> py_replace old new s = s"
proof (induction s)
  case Nil
  then show ?case by simp
next
  case (Cons c cs)
  then have "\<not> prefix old (c # cs)"
    by (cases old) auto
  with Cons show ?case by simp
qed

lemma rewritten_plain:
  "CHR ''@'' \<notin> set body \<Longrightarrow> rewritten example_iter uh (example_raw body) = Inr body"
  by (simp add: rewritten_def fix_mentions_def example_raw_def example_iter_def py_replace_absent)

lemma long_body_too_long: "too_long example_iter uh (example_raw long_body)"
  by (simp add: too_long_def rewritten_plain long_body_def)

lemma too_long_rewritten: "too_long it uh x \<Longrightarrow> \<exists>body. rewritten it uh x = Inr body \<and> 10000 < length body"
  by (auto simp: too_long_def split: sum.splits)

lemma isl_batch:
  "isl (process_raw_message_batch realm_id raws sub it uh n2c st) =
     (\<not> (\<forall>r\<in>set raws. \<exists>body. rewritten it uh r = Inr body))"
  using process_raw_message_batch_succeeds[of realm_id raws sub it uh n2c st]
  by (cases "process_raw_message_batch realm_id raws sub it uh n2c st") auto

text \<open>
  C6. Let \<open>x\<close> be a raw message of a batch whose rewritten body has more than 10000
  units. The batch ends with an exception with \<open>x\<close> in it exactly when it does without
  \<open>x\<close>. When it ends without one, it has written one message file; the file holds the
  messages emitted for the records before \<open>x\<close> and after \<open>x\<close> and no message with the
  id \<open>x\<close> took from the counter; no reaction added by the batch belongs to that id; and
  the log has the length of the rewritten body, between the entries of the records
  before and after.
\<close>

theorem too_long_message_dropped:
  assumes "too_long it uh x"
  shows "isl (process_raw_message_batch realm_id (xs @ x # ys) sub it uh n2c st) =
           isl (process_raw_message_batch realm_id (xs @ ys) sub it uh n2c st) \<and>
         (\<forall>st'. process_raw_message_batch realm_id (xs @ x # ys) sub it uh n2c st = Inr st' \<longrightarrow>
            (\<exists>f new body.
               cs_files st' = cs_files st @ [f] \<and>
               mj_zerver_message (snd f) =
                 emitted it uh (seq_value (cs_seq st) ''message'') xs @
                 emitted it uh (seq_value (cs_seq st) ''message'' + int (length xs) + 1) ys \<and>
               seq_value (cs_seq st) ''message'' + int (length xs)
                 \<notin> zm_id ` set (mj_zerver_message (snd f)) \<and>
               cs_total_reactions st' = cs_total_reactions st @ new \<and>
               seq_value (cs_seq st) ''message'' + int (length xs) \<notin> zr_message ` set new \<and>
               rewritten it uh x = Inr body \<and> 10000 < length body \<and>
               cs_log st' = cs_log st @ logged it uh xs @ length body # logged it uh ys))"
proof -
  let ?c = "seq_value (cs_seq st) ''message''"
  let ?mid = "?c + int (length xs)"
  from too_long_rewritten[OF assms] obtain body where
    body: "rewritten it uh x = Inr body" "10000 < length body" by blast
  have fatal: "isl (process_raw_message_batch realm_id (xs @ x # ys) sub it uh n2c st) =
           isl (process_raw_message_batch realm_id (xs @ ys) sub it uh n2c st)"
    using body by (auto simp: isl_batch)
  have em: "emitted it uh ?c (xs @ x # ys) = emitted it uh ?c xs @ emitted it uh (?mid + 1) ys"
    using body by (simp add: emitted_append)
  have lg: "logged it uh (xs @ x # ys) = logged it uh xs @ length body # logged it uh ys"
    using body by (simp add: logged_append)
  have notin: "?mid \<notin> zm_id ` set (emitted it uh ?c xs @ emitted it uh (?mid + 1) ys)"
  proof
    assume "?mid \<in> zm_id ` set (emitted it uh ?c xs @ emitted it uh (?mid + 1) ys)"
    then obtain z where z: "zm_id z = ?mid"
      "z \<in> set (emitted it uh ?c xs) \<or> z \<in> set (emitted it uh (?mid + 1) ys)" by auto
    then show False
      using emitted_ids_bounds[of z it uh ?c xs] emitted_ids_bounds[of z it uh "?mid + 1" ys] by auto
  qed
  have run: "\<forall>st'. process_raw_message_batch realm_id (xs @ x # ys) sub it uh n2c st = Inr st' \<longrightarrow>
            (\<exists>f new body.
               cs_files st' = cs_files st @ [f] \<and>
               mj_zerver_message (snd f) = emitted it uh ?c xs @ emitted it uh (?mid + 1) ys \<and>
               ?mid \<notin> zm_id ` set (mj_zerver_message (snd f)) \<and>
               cs_total_reactions st' = cs_total_reactions st @ new \<and>
               ?mid \<notin> zr_message ` set new \<and>
               rewritten it uh x = Inr body \<and> 10000 < length body \<and>
               cs_log st' = cs_log st @ logged it uh xs @ length body # logged it uh ys)"
  proof (intro allI impI)
    fix st'
    assume b: "process_raw_message_batch realm_id (xs @ x # ys) sub it uh n2c st = Inr st'"
    note B = process_raw_message_batch_char[OF b]
    let ?f = "(message_file (seq_value (cs_seq st) (dump_counter realm_id)),
             \<lparr>mj_zerver_message = emitted it uh ?c (xs @ x # ys),
              mj_zerver_usermessage = make_user_messages (emitted it uh ?c (xs @ x # ys)) sub\<rparr>)"
    from B(2) obtain new where new: "cs_total_reactions st' = cs_total_reactions st @ new"
      "zr_message ` set new \<subseteq> zm_id ` set (emitted it uh ?c (xs @ x # ys))" by blast
    have a: "cs_files st' = cs_files st @ [?f]" using B(1) .
    have b1: "mj_zerver_message (snd ?f) = emitted it uh ?c xs @ emitted it uh (?mid + 1) ys"
      using em by simp
    have c1: "?mid \<notin> zm_id ` set (mj_zerver_message (snd ?f))" using notin em by simp
    have d1: "?mid \<notin> zr_message ` set new" using new(2) notin em by auto
    have e1: "cs_log st' = cs_log st @ logged it uh xs @ length body # logged it uh ys"
      using B(5) lg by simp
    show "\<exists>f new body.
               cs_files st' = cs_files st @ [f] \<and>
               mj_zerver_message (snd f) = emitted it uh ?c xs @ emitted it uh (?mid + 1) ys \<and>
               ?mid \<notin> zm_id ` set (mj_zerver_message (snd f)) \<and>
               cs_total_reactions st' = cs_total_reactions st @ new \<and>
               ?mid \<notin> zr_message ` set new \<and>
               rewritten it uh x = Inr body \<and> 10000 < length body \<and>
               cs_log st' = cs_log st @ logged it uh xs @ length body # logged it uh ys"
      using a b1 c1 new(1) d1 body e1 by blast
  qed
  show ?thesis using fatal run by blast
qed

lemma example_batch_runs:
  "\<exists>st'. process_raw_message_batch 0
      [example_raw ''hi'', example_raw long_body, example_raw ''yo''] Map.empty example_iter Map.empty
      example_emoji example_state = Inr st'"
  by (simp add: process_raw_message_batch_succeeds rewritten_plain long_body_def)

theorem too_long_message_dropped_witness:
  "too_long example_iter Map.empty (example_raw long_body) \<and>
   (case process_raw_message_batch 0
           [example_raw ''hi'', example_raw long_body, example_raw ''yo''] Map.empty example_iter Map.empty
           example_emoji example_state of
      Inl e \<Rightarrow> False
    | Inr st' \<Rightarrow>
        map (map zm_id \<circ> mj_zerver_message \<circ> snd) (cs_files st') = [[0, 2]] \<and>
        cs_log st' = [10001])"
proof -
  from example_batch_runs obtain st' where
    run: "process_raw_message_batch 0
      ([example_raw ''hi''] @ example_raw long_body # [example_raw ''yo'']) Map.empty example_iter Map.empty
      example_emoji example_state = Inr st'" by auto
  from too_long_message_dropped[where it = example_iter and uh = Map.empty and x = "example_raw long_body"
      and realm_id = 0 and xs = "[example_raw ''hi'']" and ys = "[example_raw ''yo'']"
      and sub = Map.empty and ?n2c = example_emoji and st = example_state,
      OF long_body_too_long] run
  obtain f new body where
    f: "cs_files st' = cs_files example_state @ [f]"
      "mj_zerver_message (snd f) =
         emitted example_iter Map.empty (seq_value (cs_seq example_state) ''message'') [example_raw ''hi''] @
         emitted example_iter Map.empty (seq_value (cs_seq example_state) ''message''
            + int (length [example_raw ''hi'']) + 1) [example_raw ''yo'']"
      "rewritten example_iter Map.empty (example_raw long_body) = Inr body"
      "cs_log st' = cs_log example_state @ logged example_iter Map.empty [example_raw ''hi''] @
         length body # logged example_iter Map.empty [example_raw ''yo'']"
    by blast
  have body: "body = long_body" using f(3) by (simp add: rewritten_plain long_body_def)
  have ids: "map zm_id (mj_zerver_message (snd f)) = [0, 2]"
    unfolding f(2)
    by (simp add: rewritten_plain example_state_def seq_value_def build_message_def)
  have lg: "cs_log st' = [10001]"
    unfolding f(4) body
    by (simp add: rewritten_plain example_state_def long_body_def)
  have fl: "map (map zm_id \<circ> mj_zerver_message \<circ> snd) (cs_files st') = [[0, 2]]"
    unfolding f(1) using ids by (simp add: example_state_def)
  show ?thesis using long_body_too_long run fl lg by simp
qed

subsection \<open>Event messages\<close>

lemma convert_loop_filter:
  "convert_loop to_dict messages acc =
     convert_loop to_dict (filter (\<lambda>m. m_t m = None) messages) acc"
proof (induction messages arbitrary: acc)
  case Nil
  then show ?case by simp
next
  case (Cons m rest)
  obtain raws ms where acc: "acc = (raws, ms)" by (cases acc)
  show ?case
  proof (cases "m_t m = None")
    case True
    then show ?thesis unfolding acc using Cons.IH by (simp split: sum.splits)
  next
    case False
    then obtain y where "m_t m = Some y" by auto
    then show ?thesis unfolding acc using Cons.IH by simp
  qed
qed

lemma convert_loop_events_only:
  "convert_loop to_dict (filter (\<lambda>m. m_t m \<noteq> None) messages) acc = Inr acc"
proof (induction messages)
  case Nil
  then show ?case by simp
next
  case (Cons m rest)
  obtain raws ms where acc: "acc = (raws, ms)" by (cases acc)
  show ?case using Cons unfolding acc by simp
qed

text \<open>
  C7. A raw message that carries a type tag is passed over by the first loop of
  \<^verbatim>\<open>process_messages\<close> before anything is done with it: whatever the conversion
  function is, the loop gives the same converted records and the same id mappers as on
  the list with the tagged messages taken out, and so does the whole of
  \<^verbatim>\<open>process_messages\<close> with its files, reactions, counters and log. On tagged
  messages alone nothing is converted and nothing changes: no record, no file, no
  reaction, no id taken, no key given to an id mapper.
\<close>

theorem event_messages_not_converted:
  "convert_loop to_dict messages acc =
     convert_loop to_dict (filter (\<lambda>m. m_t m = None) messages) acc \<and>
   process_messages realm_id messages sub is_pm un it uh u2r s2r direct dsc n2c (ms, st) =
     process_messages realm_id (filter (\<lambda>m. m_t m = None) messages) sub is_pm un it uh u2r s2r
       direct dsc n2c (ms, st) \<and>
   convert_loop to_dict (filter (\<lambda>m. m_t m \<noteq> None) messages) ([], ms) = Inr ([], ms) \<and>
   process_messages realm_id (filter (\<lambda>m. m_t m \<noteq> None) messages) sub is_pm un it uh u2r s2r
     direct dsc n2c (ms, st) = Inr (ms, st)"
proof -
  have a: "convert_loop to_dict messages acc =
     convert_loop to_dict (filter (\<lambda>m. m_t m = None) messages) acc"
    by (rule convert_loop_filter)
  have b: "process_messages realm_id messages sub is_pm un it uh u2r s2r direct dsc n2c (ms, st) =
     process_messages realm_id (filter (\<lambda>m. m_t m = None) messages) sub is_pm un it uh u2r s2r
       direct dsc n2c (ms, st)"
    unfolding process_messages_def
    by (subst convert_loop_filter) simp
  have c: "convert_loop to_dict (filter (\<lambda>m. m_t m \<noteq> None) messages) ([], ms) = Inr ([], ms)"
    by (rule convert_loop_events_only)
  have d: "process_messages realm_id (filter (\<lambda>m. m_t m \<noteq> None) messages) sub is_pm un it uh u2r
     s2r direct dsc n2c (ms, st) = Inr (ms, st)"
    unfolding process_messages_def convert_loop_events_only
    by (simp add: process_list_in_batches.simps)
  show ?thesis using a b c d by blast
qed

theorem event_messages_not_converted_witness:
  "process_messages 0 [(example_message ''R1'' ''A'' ''joined'')\<lparr>m_t := Some ''uj''\<rparr>]
     Map.empty False Map.empty example_iter Map.empty example_user_recipients example_stream_recipients
     Map.empty Map.empty example_emoji (example_mappers, example_state) =
   Inr (example_mappers, example_state)"
proof -
  let ?ev = "(example_message ''R1'' ''A'' ''joined'')\<lparr>m_t := Some ''uj''\<rparr>"
  have f: "filter (\<lambda>m. m_t m \<noteq> None) [?ev] = [?ev]" by simp
  have "process_messages 0 (filter (\<lambda>m. m_t m \<noteq> None) [?ev])
     Map.empty False Map.empty example_iter Map.empty example_user_recipients example_stream_recipients
     Map.empty Map.empty example_emoji (example_mappers, example_state) =
   Inr (example_mappers, example_state)"
    using event_messages_not_converted[where messages = "[?ev]"] by blast
  then show ?thesis unfolding f .
qed

subsection \<open>Mention rewriting\<close>

lemma py_replace_Nil: "old \<noteq> [] \<Longrightarrow> py_replace old new [] = []"
  by simp

text \<open>Units that are not the first unit of the replacement come from the text itself.\<close>

lemma prefix_py_replace_kept:
  "old \<noteq> [] \<Longrightarrow> new \<noteq> [] \<Longrightarrow> hd new \<notin> set q \<Longrightarrow>
   prefix q (py_replace old new s) \<Longrightarrow> prefix q s"
proof (induction q arbitrary: s)
  case Nil
  then show ?case by simp
next
  case (Cons x q)
  show ?case
  proof (cases s)
    case Nil
    with Cons.prems show ?thesis by simp
  next
    case (Cons d ds)
    show ?thesis
    proof (cases "prefix old (d # ds)")
      case True
      then have "py_replace old new s = new @ py_replace old new (drop (length old) (d # ds))"
        using Cons.prems(1) Cons by simp
      then have "hd (py_replace old new s) = hd new" using Cons.prems(2) by simp
      moreover have "hd (py_replace old new s) = x"
        using Cons.prems(4) by (cases "py_replace old new s") auto
      ultimately show ?thesis using Cons.prems(3) by simp
    next
      case False
      then have r: "py_replace old new s = d # py_replace old new ds"
        using Cons.prems(1) Cons by simp
      then have "x = d" "prefix q (py_replace old new ds)" using Cons.prems(4) by auto
      moreover have "hd new \<notin> set q" using Cons.prems(3) by simp
      ultimately show ?thesis
        using Cons.IH[OF Cons.prems(1,2), of ds] Cons by simp
    qed
  qed
qed

lemma sublist_skip:
  "a \<notin> set xs \<Longrightarrow> sublist (a # q) (xs @ r) \<Longrightarrow> sublist (a # q) r"
proof (induction xs)
  case Nil
  then show ?case by simp
next
  case (Cons x xs)
  then show ?case by (auto simp: sublist_Cons_right)
qed

text \<open>
  A token that starts with the unit the replacement starts with, and has that unit
  nowhere else, is absent after the replacement when it is the text replaced, or was
  absent before.
\<close>

lemma no_token_after_replace:
  assumes "old \<noteq> []" and "a \<notin> set q" and "a \<notin> set n'"
    and "q \<noteq> []" and "n' \<noteq> []" and "hd q \<noteq> hd n'"
  shows "a # q = old \<or> \<not> sublist (a # q) s \<Longrightarrow>
         \<not> sublist (a # q) (py_replace old (a # n') s)"
proof (induction s rule: length_induct)
  case (1 s)
  note IH = "1.IH"
  note pre = "1.prems"
  show ?case
  proof (cases s)
    case Nil
    then show ?thesis using assms(1) by simp
  next
    case (Cons c cs)
    show ?thesis
    proof (cases "prefix old (c # cs)")
      case True
      let ?rest = "drop (length old) (c # cs)"
      let ?R = "py_replace old (a # n') ?rest"
      have res: "py_replace old (a # n') s = (a # n') @ ?R"
        using True assms(1) Cons by simp
      have shorter: "length ?rest < length s" using assms(1) Cons by simp
      have "sublist ?rest s" unfolding Cons by (rule sublist_drop)
      then have "a # q = old \<or> \<not> sublist (a # q) ?rest"
        using pre sublist_order.order.trans by blast
      then have noR: "\<not> sublist (a # q) ?R" using IH shorter by blast
      have np: "\<not> prefix q (n' @ ?R)"
        using assms(4,5,6) by (cases q; cases n') auto
      show ?thesis
      proof
        assume "sublist (a # q) (py_replace old (a # n') s)"
        then have "prefix (a # q) (a # n' @ ?R) \<or> sublist (a # q) (n' @ ?R)"
          unfolding res by (simp add: sublist_Cons_right)
        then have "sublist (a # q) (n' @ ?R)" using np by simp
        from sublist_skip[OF assms(3) this] noR show False by simp
      qed
    next
      case False
      let ?R = "py_replace old (a # n') cs"
      have res: "py_replace old (a # n') s = c # ?R"
        using False assms(1) Cons by simp
      have "a # q = old \<or> \<not> sublist (a # q) cs"
        using pre unfolding Cons by (auto simp: sublist_Cons_right)
      moreover have "length cs < length s" using Cons by simp
      ultimately have noR: "\<not> sublist (a # q) ?R" using IH by blast
      show ?thesis
      proof
        assume "sublist (a # q) (py_replace old (a # n') s)"
        then have "prefix (a # q) (c # ?R) \<or> sublist (a # q) ?R"
          unfolding res sublist_Cons_right .
        with noR have pc: "prefix (a # q) (c # ?R)" by blast
        from pc have c: "a = c" by simp
        from pc have pq: "prefix q ?R" by auto
        have "hd (a # n') \<notin> set q" using assms(2) by simp
        from prefix_py_replace_kept[OF assms(1) _ this pq] have "prefix q cs" by simp
        then have p: "prefix (a # q) s" using c Cons by simp
        show False
        proof (cases "a # q = old")
          case True
          then show ?thesis using p False Cons by simp
        next
          case ne: False
          then have "\<not> sublist (a # q) s" using pre by simp
          then show ?thesis using p prefix_imp_sublist by blast
        qed
      qed
    qed
  qed
qed

lemma no_broadcast_token_left:
  "\<not> sublist ''@all'' (py_replace ''@here'' ''@**all**'' (py_replace ''@all'' ''@**all**'' s))"
  "\<not> sublist ''@here'' (py_replace ''@here'' ''@**all**'' (py_replace ''@all'' ''@**all**'' s))"
proof -
  let ?s1 = "py_replace ''@all'' ''@**all**'' s"
  have one: "\<not> sublist ''@all'' ?s1"
    using no_token_after_replace[of "''@all''" "CHR ''@''" "''all''" "''**all**''" s] by simp
  show "\<not> sublist ''@all'' (py_replace ''@here'' ''@**all**'' ?s1)"
    using no_token_after_replace[of "''@here''" "CHR ''@''" "''all''" "''**all**''" ?s1] one
    by simp
  show "\<not> sublist ''@here'' (py_replace ''@here'' ''@**all**'' ?s1)"
    using no_token_after_replace[of "''@here''" "CHR ''@''" "''here''" "''**all**''" ?s1]
    by simp
qed

lemma fix_mention_users_eq:
  "fix_mention_users uh body ids =
     (if set ids \<subseteq> dom uh then Inr (foldl (mention_step uh) body ids) else Inl KeyError)"
proof (induction ids arbitrary: body)
  case Nil
  then show ?case by simp
next
  case (Cons i ids)
  show ?case
  proof (cases "uh i")
    case None
    then show ?thesis by (auto simp: get_user_def lookup_def)
  next
    case (Some u)
    then have "fix_mention_users uh body (i # ids) =
               fix_mention_users uh (mention_step uh body i) ids"
      by (simp add: get_user_def lookup_def mention_step_def)
    moreover have "i \<in> dom uh" using Some by auto
    ultimately show ?thesis using Cons.IH[of "mention_step uh body i"] by simp
  qed
qed

lemma fix_mentions_eq:
  "fix_mentions it uh body S =
     (if set (it S) \<subseteq> dom uh
      then Inr (py_replace ''@here'' ''@**all**'' (py_replace ''@all'' ''@**all**''
                  (foldl (mention_step uh) body (it S))))
      else Inl KeyError)"
  by (simp add: fix_mentions_def fix_mention_users_eq)

text \<open>
  What \<^verbatim>\<open>str.replace\<close> does, apart from how it is computed: a text without the old
  text stays as it is, and up to and including the first place where the old text
  stands, the text is kept and the old text exchanged for the new one.
\<close>

lemma py_replace_none: "old \<noteq> [] \<Longrightarrow> \<not> sublist old s \<Longrightarrow> py_replace old new s = s"
proof (induction s)
  case Nil
  then show ?case by simp
next
  case (Cons c cs)
  from Cons.prems(2) have "\<not> prefix old (c # cs)" and "\<not> sublist old cs"
    by (auto simp: sublist_Cons_right)
  then show ?case using Cons by simp
qed

lemma prefix_before_own_end:
  assumes "prefix p (w @ p @ v)" and "w \<noteq> []"
  shows "prefix p (w @ butlast p)"
proof -
  from assms(1) obtain zs where "p @ zs = w @ p @ v" by (auto simp: prefix_def)
  then have t: "p = take (length p) (w @ p @ v)" by (simp add: append_eq_conv_conj)
  let ?n = "length p - length w"
  have n: "?n \<le> length p - 1" using assms(2) by (cases w) auto
  have "take ?n (p @ v) = take ?n p" by simp
  moreover have "take ?n (butlast p) = take ?n p"
    using n by (simp add: butlast_conv_take min_def)
  ultimately have "take (length p) (w @ p @ v) = take (length p) (w @ butlast p)" by simp
  then have "p = take (length p) (w @ butlast p)" using t by simp
  then show ?thesis by (metis take_is_prefix)
qed

lemma py_replace_first:
  "old \<noteq> [] \<Longrightarrow> \<not> sublist old (u @ butlast old) \<Longrightarrow>
   py_replace old new (u @ old @ v) = u @ new @ py_replace old new v"
proof (induction u)
  case Nil
  then obtain c cs where old: "old = c # cs" by (cases old) auto
  show ?case unfolding old by simp
next
  case (Cons x u)
  have np: "\<not> prefix old ((x # u) @ old @ v)"
  proof
    assume "prefix old ((x # u) @ old @ v)"
    then have "prefix old ((x # u) @ butlast old)" by (rule prefix_before_own_end) simp
    then have "sublist old ((x # u) @ butlast old)" by (rule prefix_imp_sublist)
    then show False using Cons.prems(2) by simp
  qed
  have "\<not> sublist old (u @ butlast old)"
    using Cons.prems(2) by (auto simp: sublist_Cons_right)
  then have IH: "py_replace old new (u @ old @ v) = u @ new @ py_replace old new v"
    using Cons.IH Cons.prems(1) by simp
  show ?case using np IH Cons.prems(1) by simp
qed

lemma raw_message_loop_single:
  "map_sum id fst (raw_message_loop it uh n2c [r] ([], st)) =
     (case fix_mentions it uh (content r) (mention_user_ids r) of
        Inl e \<Rightarrow> Inl e
      | Inr body' \<Rightarrow>
          Inr (if 10000 < length body' then []
               else [build_message body' (seq_value (cs_seq st) ''message'') (date_sent r)
                       (recipient_id r) None (topic_name r) (sender_id r) False]))"
  by (simp add: NEXT_ID_def Let_def split: sum.split prod.split)

text \<open>
  C5. \<^verbatim>\<open>fix_mentions\<close> ends with a \<^verbatim>\<open>KeyError\<close> when a mentioned id is not a known
  user, and otherwise returns the body after these steps in this order: for each
  mentioned user, in the order the set is iterated, \<^verbatim>\<open>str.replace\<close> of \<open>@\<close> and the
  short name by \<open>@**\<close>, the full name and \<open>**\<close>; then \<^verbatim>\<open>str.replace\<close> of \<open>@all\<close> by
  \<open>@**all**\<close>; then of \<open>@here\<close> by \<open>@**all**\<close>. \<^verbatim>\<open>str.replace\<close> exchanges every
  occurrence from the left: up to the first occurrence the text is kept, the occurrence
  is exchanged, and the rest is treated alike; a text with no occurrence is unchanged.
  No \<open>@all\<close> and no \<open>@here\<close> is left in the body returned. The batch loop tests the
  length of the rewritten body, not of the body it was given: on a batch of one record
  it raises what \<^verbatim>\<open>fix_mentions\<close> raises, emits nothing when the rewritten body has
  more than 10000 units, and else emits one message, with the rewritten body.
\<close>

theorem fix_mentions_rewrites_then_length:
  assumes "set (it (mention_user_ids r)) = mention_user_ids r"
  shows "fix_mentions it uh (content r) (mention_user_ids r) =
           (if mention_user_ids r \<subseteq> dom uh
            then Inr (py_replace ''@here'' ''@**all**'' (py_replace ''@all'' ''@**all**''
                        (foldl (mention_step uh) (content r) (it (mention_user_ids r)))))
            else Inl KeyError) \<and>
         (\<forall>old new u v. old \<noteq> [] \<and> \<not> sublist old (u @ butlast old) \<longrightarrow>
            py_replace old new (u @ old @ v) = u @ new @ py_replace old new v) \<and>
         (\<forall>old new s. old \<noteq> [] \<and> \<not> sublist old s \<longrightarrow> py_replace old new s = s) \<and>
         (\<forall>body'. fix_mentions it uh (content r) (mention_user_ids r) = Inr body' \<longrightarrow>
            \<not> sublist ''@all'' body' \<and> \<not> sublist ''@here'' body') \<and>
         map_sum id fst (raw_message_loop it uh n2c [r] ([], st)) =
           (case fix_mentions it uh (content r) (mention_user_ids r) of
              Inl e \<Rightarrow> Inl e
            | Inr body' \<Rightarrow>
                Inr (if 10000 < length body' then []
                     else [build_message body' (seq_value (cs_seq st) ''message'') (date_sent r)
                             (recipient_id r) None (topic_name r) (sender_id r) False]))"
proof -
  have one: "fix_mentions it uh (content r) (mention_user_ids r) =
           (if mention_user_ids r \<subseteq> dom uh
            then Inr (py_replace ''@here'' ''@**all**'' (py_replace ''@all'' ''@**all**''
                        (foldl (mention_step uh) (content r) (it (mention_user_ids r)))))
            else Inl KeyError)"
    unfolding fix_mentions_eq assms ..
  have two: "\<forall>old new u v. old \<noteq> [] \<and> \<not> sublist old (u @ butlast old) \<longrightarrow>
            py_replace old new (u @ old @ v) = u @ new @ py_replace old new v"
    using py_replace_first by blast
  have three: "\<forall>old new s. old \<noteq> [] \<and> \<not> sublist old s \<longrightarrow> py_replace old new s = s"
    using py_replace_none by blast
  have four: "\<forall>body'. fix_mentions it uh (content r) (mention_user_ids r) = Inr body' \<longrightarrow>
            \<not> sublist ''@all'' body' \<and> \<not> sublist ''@here'' body'"
    unfolding fix_mentions_eq using no_broadcast_token_left by (auto split: if_splits)
  have five: "map_sum id fst (raw_message_loop it uh n2c [r] ([], st)) =
           (case fix_mentions it uh (content r) (mention_user_ids r) of
              Inl e \<Rightarrow> Inl e
            | Inr body' \<Rightarrow>
                Inr (if 10000 < length body' then []
                     else [build_message body' (seq_value (cs_seq st) ''message'') (date_sent r)
                             (recipient_id r) None (topic_name r) (sender_id r) False]))"
    by (rule raw_message_loop_single)
  show ?thesis by (intro conjI) (fact one, fact two, fact three, fact four, fact five)
qed

lemma example_iter_eval:
  "example_iter {7, 8} = [7, 8]" "example_iter {7} = [7]" "example_iter {9} = [9]"
  "example_iter {} = []"
  by (simp_all add: example_iter_def)

lemma example_two_mentions:
  "fix_mentions example_iter example_users ''@alice and @bob, @alice: @all'' {7, 8} =
     Inr ''@**Alice Smith** and @**Bob Ray**, @**Alice Smith**: @**all**''"
  by (simp add: fix_mentions_def example_iter_eval example_users_def get_user_def lookup_def)

lemma example_alice_rewritten:
  "fix_mentions example_iter example_users ''@alice please review'' {7} =
     Inr ''@**Alice Smith** please review''"
  by (simp add: fix_mentions_def example_iter_eval example_users_def get_user_def lookup_def)

theorem fix_mentions_rewrites_then_length_witness:
  "fix_mentions example_iter example_users ''@alice and @bob, @alice: @all'' {7, 8} =
     Inr ''@**Alice Smith** and @**Bob Ray**, @**Alice Smith**: @**all**'' \<and>
   fix_mentions example_iter example_users ''@alice please review'' {7} =
     Inr ''@**Alice Smith** please review'' \<and>
   fix_mentions example_iter example_users ''@carol'' {9} = Inl KeyError \<and>
   set (example_iter {7, 8}) = {7, 8} \<and>
   \<not> sublist ''@all'' ''@**Alice Smith** and @**Bob Ray**, @**Alice Smith**: @**all**'' \<and>
   map_sum id fst
     (raw_message_loop example_iter example_users example_emoji
        [(example_raw ''@alice and @bob, @alice: @all'')\<lparr>mention_user_ids := {7, 8}\<rparr>]
        ([], example_state)) =
   Inr [build_message ''@**Alice Smith** and @**Bob Ray**, @**Alice Smith**: @**all**'' 0
          1600000000 200 None ''Imported from Rocket.Chat'' 0 False]"
proof -
  let ?r = "(example_raw ''@alice and @bob, @alice: @all'')\<lparr>mention_user_ids := {7, 8}\<rparr>"
  have pc: "set (example_iter {7, 8}) = {7, 8}" by (auto simp: example_iter_eval)
  have p: "set (example_iter (mention_user_ids ?r)) = mention_user_ids ?r"
    using pc by (simp add: example_raw_def)
  have c9: "fix_mentions example_iter example_users ''@carol'' {9} = Inl KeyError"
    by (simp add: fix_mentions_eq example_iter_eval example_users_def)
  have body: "fix_mentions example_iter example_users (content ?r) (mention_user_ids ?r) =
     Inr ''@**Alice Smith** and @**Bob Ray**, @**Alice Smith**: @**all**''"
    using example_two_mentions by (simp add: example_raw_def)
  have T: "(\<forall>body'.
       fix_mentions example_iter example_users (content ?r) (mention_user_ids ?r) = Inr body' \<longrightarrow>
       \<not> sublist ''@all'' body' \<and> \<not> sublist ''@here'' body') \<and>
     map_sum id fst (raw_message_loop example_iter example_users example_emoji [?r]
           ([], example_state)) =
        (case fix_mentions example_iter example_users (content ?r) (mention_user_ids ?r) of
              Inl e \<Rightarrow> Inl e
            | Inr body' \<Rightarrow>
                Inr (if 10000 < length body' then []
                     else [build_message body' (seq_value (cs_seq example_state) ''message'')
                             (date_sent ?r) (recipient_id ?r) None (topic_name ?r)
                             (sender_id ?r) False]))"
    using fix_mentions_rewrites_then_length[where it = example_iter and r = "?r"
        and uh = example_users and ?n2c = example_emoji and st = example_state] p
    by blast
  have ns: "\<not> sublist ''@all'' ''@**Alice Smith** and @**Bob Ray**, @**Alice Smith**: @**all**''"
    using T body by blast
  have "map_sum id fst (raw_message_loop example_iter example_users example_emoji [?r]
           ([], example_state)) =
        (case fix_mentions example_iter example_users (content ?r) (mention_user_ids ?r) of
              Inl e \<Rightarrow> Inl e
            | Inr body' \<Rightarrow>
                Inr (if 10000 < length body' then []
                     else [build_message body' (seq_value (cs_seq example_state) ''message'')
                             (date_sent ?r) (recipient_id ?r) None (topic_name ?r)
                             (sender_id ?r) False]))"
    using T by blast
  then have loop: "map_sum id fst (raw_message_loop example_iter example_users example_emoji [?r]
           ([], example_state)) =
      Inr [build_message ''@**Alice Smith** and @**Bob Ray**, @**Alice Smith**: @**all**'' 0
          1600000000 200 None ''Imported from Rocket.Chat'' 0 False]"
    unfolding body by (simp add: example_raw_def example_state_def seq_value_def)
  show ?thesis
    by (intro conjI) (fact example_two_mentions, fact example_alice_rewritten, fact c9, fact pc,
        fact ns, fact loop)
qed

end
